theory Spec2Isabelle
  imports Complex_Main
begin

section \<open>JavaScript values\<close>

text \<open>
  The tracker keeps plain JavaScript objects whose fields hold primitives. A number is
  modelled as a rational with the three non-finite values of the language; arithmetic on
  finite values is exact (rounding to binary64 and the sign of zero are not modelled).
\<close>

datatype jsnum = Fin rat | PosInf | NegInf | NaN

datatype jsval = JUndefined | JNull | JBool bool | JNum jsnum | JStr string

text \<open>ToBoolean, as used by \<^verbatim>\<open>!x\<close> and \<^verbatim>\<open>x || y\<close>.\<close>

fun truthy :: "jsval \<Rightarrow> bool" where
  "truthy JUndefined = False"
| "truthy JNull = False"
| "truthy (JBool b) = b"
| "truthy (JNum n) = (n \<noteq> NaN \<and> n \<noteq> Fin 0)"
| "truthy (JStr s) = (s \<noteq> [])"

text \<open>Strict equality \<^verbatim>\<open>===\<close>: equal primitives of one type, and NaN differs from itself.\<close>

definition strict_eq :: "jsval \<Rightarrow> jsval \<Rightarrow> bool" where
  "strict_eq a b = (a = b \<and> a \<noteq> JNum NaN)"

text \<open>
  Number to string, for template literals and string concatenation: decimal notation,
  the integer part followed by at most twenty fraction digits. It agrees with the
  language on numbers written with up to fifteen significant digits and of magnitude
  between 1e-6 and 1e21, which covers weights and doses.
\<close>

definition digit_char :: "nat \<Rightarrow> char" where
  "digit_char d = char_of (48 + d)"

fun nat_digits :: "nat \<Rightarrow> string" where
  "nat_digits n = (if n < 10 then [digit_char n] else nat_digits (n div 10) @ [digit_char (n mod 10)])"

declare nat_digits.simps [simp del]

fun frac_digits :: "nat \<Rightarrow> rat \<Rightarrow> string" where
  "frac_digits 0 r = []"
| "frac_digits (Suc k) r =
     (if r = 0 then []
      else digit_char (nat \<lfloor>r * 10\<rfloor>) # frac_digits k (r * 10 - of_int \<lfloor>r * 10\<rfloor>))"

definition rat_to_string :: "rat \<Rightarrow> string" where
  "rat_to_string q =
     (let a = \<bar>q\<bar>; w = \<lfloor>a\<rfloor>; f = a - of_int w
      in (if q < 0 then ''-'' else '''') @ nat_digits (nat w)
         @ (if f = 0 then '''' else ''.'' @ frac_digits 20 f))"

fun num_to_string :: "jsnum \<Rightarrow> string" where
  "num_to_string NaN = ''NaN''"
| "num_to_string PosInf = ''Infinity''"
| "num_to_string NegInf = ''-Infinity''"
| "num_to_string (Fin q) = rat_to_string q"

fun to_string :: "jsval \<Rightarrow> string" where
  "to_string JUndefined = ''undefined''"
| "to_string JNull = ''null''"
| "to_string (JBool b) = (if b then ''true'' else ''false'')"
| "to_string (JNum n) = num_to_string n"
| "to_string (JStr s) = s"

section \<open>The entry store (DataManager)\<close>

record entry =
  e_id :: jsval
  e_type :: jsval
  e_date :: jsval
  e_weight :: jsval
  e_notes :: jsval
  e_dose :: jsval

text \<open>
  The persisted mirror: the value under the storage key is absent, is text that does not
  parse to an array, or is the JSON of an entry list.
\<close>

datatype stored = Absent | Corrupt | Saved "entry list"

record store =
  entries :: "entry list"
  storage :: stored

datatype js_error = Error string | TypeError | RangeError

text \<open>
  \<^verbatim>\<open>new Date(v).getTime()\<close>, with \<open>None\<close> for NaN (an invalid date). The parser of date
  strings belongs to the runtime and is a parameter \<open>P\<close> of everything that reads dates.
\<close>

definition time_clip :: "jsnum \<Rightarrow> int option" where
  "time_clip n =
     (case n of
        Fin q \<Rightarrow> if \<bar>q\<bar> \<le> 8640000000000000
                 then Some (if 0 \<le> q then \<lfloor>q\<rfloor> else \<lceil>q\<rceil>) else None
      | _ \<Rightarrow> None)"

fun date_value :: "(string \<Rightarrow> int option) \<Rightarrow> jsval \<Rightarrow> int option" where
  "date_value P JUndefined = None"
| "date_value P JNull = Some 0"
| "date_value P (JBool b) = Some (if b then 1 else 0)"
| "date_value P (JNum n) = time_clip n"
| "date_value P (JStr s) = P s"

definition validateEntry :: "(string \<Rightarrow> int option) \<Rightarrow> entry \<Rightarrow> bool" where
  "validateEntry P e =
     (if \<not> truthy (e_type e) then False
      else if \<not> truthy (e_date e) then False
      else if e_type e \<noteq> JStr ''medication'' \<and> e_type e \<noteq> JStr ''daily'' then False
      else if date_value P (e_date e) = None then False
      else if e_type e = JStr ''medication'' \<and> \<not> truthy (e_dose e) then False
      else True)"

text \<open>JSON.stringify followed by JSON.parse: a non-finite number comes back as null.\<close>

fun json_value :: "jsval \<Rightarrow> jsval" where
  "json_value (JNum (Fin q)) = JNum (Fin q)"
| "json_value (JNum n) = JNull"
| "json_value v = v"

definition json_entry :: "entry \<Rightarrow> entry" where
  "json_entry e =
     \<lparr>e_id = json_value (e_id e), e_type = json_value (e_type e),
      e_date = json_value (e_date e), e_weight = json_value (e_weight e),
      e_notes = json_value (e_notes e), e_dose = json_value (e_dose e)\<rparr>"

text \<open>
  \<open>saveData\<close>: the flag says whether local storage exists and accepts the write; a
  failed write is caught and leaves the mirror as it was.
\<close>

definition saveData :: "bool \<Rightarrow> store \<Rightarrow> store" where
  "saveData wr s = (if wr then s\<lparr>storage := Saved (map json_entry (entries s))\<rparr> else s)"

text \<open>
  The comparator \<^verbatim>\<open>(a, b) => new Date(b.date) - new Date(a.date)\<close> and the sort it
  drives. The sort is stable; it is written as insertion from the right, which is what
  every stable sort computes when all dates are valid. A NaN comparison counts as 0.
\<close>

definition date_cmp :: "(string \<Rightarrow> int option) \<Rightarrow> entry \<Rightarrow> entry \<Rightarrow> int option" where
  "date_cmp P a b =
     (case (date_value P (e_date b), date_value P (e_date a)) of
        (Some tb, Some ta) \<Rightarrow> Some (tb - ta)
      | _ \<Rightarrow> None)"

definition cmp_pos :: "int option \<Rightarrow> bool" where
  "cmp_pos c = (case c of Some d \<Rightarrow> 0 < d | None \<Rightarrow> False)"

fun insert_by_date :: "(string \<Rightarrow> int option) \<Rightarrow> entry \<Rightarrow> entry list \<Rightarrow> entry list" where
  "insert_by_date P x [] = [x]"
| "insert_by_date P x (y # ys) =
     (if cmp_pos (date_cmp P x y) then y # insert_by_date P x ys else x # y # ys)"

definition sort_entries :: "(string \<Rightarrow> int option) \<Rightarrow> entry list \<Rightarrow> entry list" where
  "sort_entries P es = foldr (insert_by_date P) es []"

text \<open>\<open>loadData\<close>: the flag says whether \<^verbatim>\<open>window.localStorage\<close> exists.\<close>

definition loadData :: "(string \<Rightarrow> int option) \<Rightarrow> bool \<Rightarrow> store \<Rightarrow> store" where
  "loadData P avail s =
     (case (if avail then storage s else Absent) of
        Saved es \<Rightarrow> s\<lparr>entries := sort_entries P es\<rparr>
      | _ \<Rightarrow> s\<lparr>entries := []\<rparr>)"

text \<open>\<^verbatim>\<open>entry.id = entry.id || fresh\<close>, where \<open>fresh\<close> is the clock plus a random fraction.\<close>

definition stamp :: "rat \<Rightarrow> entry \<Rightarrow> entry" where
  "stamp fresh e = e\<lparr>e_id := (if truthy (e_id e) then e_id e else JNum (Fin fresh))\<rparr>"

definition addEntry ::
  "(string \<Rightarrow> int option) \<Rightarrow> rat \<Rightarrow> bool \<Rightarrow> entry \<Rightarrow> store \<Rightarrow> (js_error + unit) \<times> store" where
  "addEntry P fresh wr e s =
     (if \<not> validateEntry P e then (Inl (Error ''Invalid entry data''), s)
      else (Inr (), saveData wr (s\<lparr>entries := stamp fresh e # entries s\<rparr>)))"

definition deleteEntry :: "bool \<Rightarrow> jsval \<Rightarrow> store \<Rightarrow> bool \<times> store" where
  "deleteEntry wr entryId s =
     (let initialLength = length (entries s);
          s1 = s\<lparr>entries := filter (\<lambda>e. \<not> strict_eq (e_id e) entryId) (entries s)\<rparr>
      in if length (entries s1) < initialLength then (True, saveData wr s1) else (False, s1))"

text \<open>
  \<open>importEntries\<close> receives an array whose elements are objects or primitives. Reading
  a property of null or undefined throws a TypeError, which the loop catches per item.
\<close>

datatype candidate = Obj entry | Prim jsval

datatype import_error = Validation_failed nat | Threw nat

record import_result =
  imported :: nat
  errors :: "import_error list"

text \<open>
  The validation loop, from index \<open>i\<close> on: the surviving entries with their ids
  assigned, the per-item errors (numbered from 1), and the array as the loop leaves it
  (the loop writes the id into the object it was given). \<open>fresh k\<close> is the clock
  plus a random fraction at item \<open>k\<close>; the index is added to it.
\<close>

fun validate_all ::
  "(string \<Rightarrow> int option) \<Rightarrow> (nat \<Rightarrow> rat) \<Rightarrow> nat \<Rightarrow> candidate list
     \<Rightarrow> entry list \<times> import_error list \<times> candidate list" where
  "validate_all P fresh i [] = ([], [], [])"
| "validate_all P fresh i (Prim v # cs) =
     (case validate_all P fresh (Suc i) cs of
        (vs, errs, arr) \<Rightarrow>
          (vs, (if v = JNull then Threw (Suc i) else if v = JUndefined then Threw (Suc i)
                else Validation_failed (Suc i)) # errs, Prim v # arr))"
| "validate_all P fresh i (Obj e # cs) =
     (case validate_all P fresh (Suc i) cs of
        (vs, errs, arr) \<Rightarrow>
          if validateEntry P e
          then (stamp (fresh i + of_nat i) e # vs, errs, Obj (stamp (fresh i + of_nat i) e) # arr)
          else (vs, Validation_failed (Suc i) # errs, Obj e # arr))"

text \<open>
  \<open>removeDuplicates\<close>. \<^verbatim>\<open>entry.date.split('T')[0]\<close> is the text before the first T of a
  string; on any other value the call throws a TypeError (\<open>None\<close>).
\<close>

fun date_key :: "jsval \<Rightarrow> string option" where
  "date_key (JStr s) = Some (takeWhile (\<lambda>c. c \<noteq> CHR ''T'') s)"
| "date_key v = None"

definition dedup_key :: "entry \<Rightarrow> string option" where
  "dedup_key e =
     (case date_key (e_date e) of
        None \<Rightarrow> None
      | Some dateKey \<Rightarrow>
          Some (if e_type e = JStr ''medication''
                then dateKey @ ''-'' @ to_string (e_dose e) @ ''-'' @ to_string (e_type e)
                else dateKey @ ''-'' @ to_string (e_weight e) @ ''-'' @ to_string (e_type e)))"

fun unique_entries :: "string set \<Rightarrow> entry list \<Rightarrow> entry list option" where
  "unique_entries seen [] = Some []"
| "unique_entries seen (e # es) =
     (case dedup_key e of
        None \<Rightarrow> None
      | Some k \<Rightarrow>
          if k \<in> seen then unique_entries seen es
          else map_option ((#) e) (unique_entries (insert k seen) es))"

definition removeDuplicates :: "store \<Rightarrow> (js_error + nat) \<times> store" where
  "removeDuplicates s =
     (case unique_entries {} (entries s) of
        None \<Rightarrow> (Inl TypeError, s)
      | Some uniqueEntries \<Rightarrow>
          (Inr (length (entries s) - length uniqueEntries), s\<lparr>entries := uniqueEntries\<rparr>))"

text \<open>
  \<open>importEntries\<close>: the outcome (an exception or the result object), the store it
  leaves, and the input array as mutated. The argument is a list, so the array test at
  the top of the function always passes.
\<close>

definition importEntries ::
  "(string \<Rightarrow> int option) \<Rightarrow> (nat \<Rightarrow> rat) \<Rightarrow> bool \<Rightarrow> candidate list \<Rightarrow> store
     \<Rightarrow> (js_error + import_result) \<times> store \<times> candidate list" where
  "importEntries P fresh wr newEntries s =
     (case validate_all P fresh 0 newEntries of
        (validEntries, errs, arr) \<Rightarrow>
          if length validEntries = 0
          then (Inl (Error ''No valid entries to import''), s, arr)
          else
            (case removeDuplicates (s\<lparr>entries := validEntries @ entries s\<rparr>) of
               (Inl err, s1) \<Rightarrow> (Inl err, s1, arr)
             | (Inr n, s1) \<Rightarrow>
                 (Inr \<lparr>imported = length validEntries, errors = errs\<rparr>,
                  saveData wr (s1\<lparr>entries := sort_entries P (entries s1)\<rparr>), arr)))"

section \<open>Calendar arithmetic of the runtime's Date\<close>

text \<open>
  Days since 1970-01-01 of a proleptic Gregorian date (month 1 to 12), and back.
\<close>

definition days_from_civil :: "int \<Rightarrow> int \<Rightarrow> int \<Rightarrow> int" where
  "days_from_civil y m d =
     (let y1 = (if m \<le> 2 then y - 1 else y);
          era = y1 div 400;
          yoe = y1 - era * 400;
          doy = (153 * (if 2 < m then m - 3 else m + 9) + 2) div 5 + d - 1;
          doe = yoe * 365 + yoe div 4 - yoe div 100 + doy
      in era * 146097 + doe - 719468)"

definition civil_from_days :: "int \<Rightarrow> int \<times> int \<times> int" where
  "civil_from_days z0 =
     (let z = z0 + 719468;
          era = z div 146097;
          doe = z - era * 146097;
          yoe = (doe - doe div 1460 + doe div 36524 - doe div 146096) div 365;
          doy = doe - (365 * yoe + yoe div 4 - yoe div 100);
          mp = (5 * doy + 2) div 153;
          d = doy - (153 * mp + 2) div 5 + 1;
          m = (if mp < 10 then mp + 3 else mp - 9)
      in (yoe + era * 400 + (if m \<le> 2 then 1 else 0), m, d))"

text \<open>
  \<^verbatim>\<open>new Date(year, monthIndex, day, hours, minutes).getTime()\<close>: the fields are local time,
  \<open>tz\<close> is the zone's offset from UTC in minutes (local = UTC + tz). A year from 0 to
  99 means 1900 + year; day and month overflow carry; \<open>None\<close> is an invalid date.
\<close>

definition make_date :: "int \<Rightarrow> int option \<Rightarrow> int \<Rightarrow> int \<Rightarrow> int \<Rightarrow> int \<Rightarrow> int option" where
  "make_date tz year monthIndex day hours minutes =
     (case year of
        None \<Rightarrow> None
      | Some y \<Rightarrow>
          (let yr = (if 0 \<le> y \<and> y \<le> 99 then 1900 + y else y);
               ym = yr + monthIndex div 12;
               mn = monthIndex mod 12;
               dayNumber = days_from_civil ym (mn + 1) 1 + day - 1;
               localTime = dayNumber * 86400000 + hours * 3600000 + minutes * 60000;
               t = localTime - tz * 60000
           in if \<bar>t\<bar> \<le> 8640000000000000 then Some t else None))"

definition pad :: "nat \<Rightarrow> string \<Rightarrow> string" where
  "pad n s = replicate (n - length s) CHR ''0'' @ s"

text \<open>\<^verbatim>\<open>toISOString()\<close> of a valid time value (UTC fields).\<close>

definition toISOString :: "int \<Rightarrow> string" where
  "toISOString t =
     (let days = t div 86400000;
          ms = t mod 86400000;
          ymd = civil_from_days days;
          y = fst ymd; m = fst (snd ymd); d = snd (snd ymd)
      in (if 0 \<le> y \<and> y \<le> 9999 then pad 4 (nat_digits (nat y))
          else (if y < 0 then ''-'' else ''+'') @ pad 6 (nat_digits (nat \<bar>y\<bar>)))
         @ ''-'' @ pad 2 (nat_digits (nat m)) @ ''-'' @ pad 2 (nat_digits (nat d))
         @ ''T'' @ pad 2 (nat_digits (nat (ms div 3600000)))
         @ '':'' @ pad 2 (nat_digits (nat (ms mod 3600000 div 60000)))
         @ '':'' @ pad 2 (nat_digits (nat (ms mod 60000 div 1000)))
         @ ''.'' @ pad 3 (nat_digits (nat (ms mod 1000))) @ ''Z'')"

definition is_digit :: "char \<Rightarrow> bool" where
  "is_digit c = (48 \<le> (of_char c :: nat) \<and> (of_char c :: nat) \<le> 57)"

definition digit_val :: "char \<Rightarrow> nat" where
  "digit_val c = (of_char c :: nat) - 48"

definition digits_value :: "string \<Rightarrow> nat" where
  "digits_value s = foldl (\<lambda>acc c. acc * 10 + digit_val c) 0 s"

text \<open>
  A date-string parser for concrete runs: the runtime's parser on the one shape the
  application writes, \<^verbatim>\<open>YYYY-MM-DDTHH:mm\<close>, which is read as local time. Any other
  string is invalid here.
\<close>

definition parse_local_minutes :: "int \<Rightarrow> string \<Rightarrow> int option" where
  "parse_local_minutes tz s =
     (let y = take 4 s; m = take 2 (drop 5 s); d = take 2 (drop 8 s);
          h = take 2 (drop 11 s); mi = drop 14 s
      in if length s = 16 \<and> list_all is_digit (y @ m @ d @ h @ mi)
            \<and> s ! 4 = CHR ''-'' \<and> s ! 7 = CHR ''-'' \<and> s ! 10 = CHR ''T'' \<and> s ! 13 = CHR '':''
            \<and> digits_value h < 24 \<and> digits_value mi < 60
            \<and> civil_from_days (days_from_civil (int (digits_value y)) (int (digits_value m))
                 (int (digits_value d)))
               = (int (digits_value y), int (digits_value m), int (digits_value d))
         then Some ((days_from_civil (int (digits_value y)) (int (digits_value m))
                       (int (digits_value d)) * 1440
                     + int (digits_value h) * 60 + int (digits_value mi) - tz) * 60000)
         else None)"

section \<open>The free-text importer (ImportManager.parseTextData)\<close>

text \<open>
  Strings are ASCII here: \<^verbatim>\<open>\s\<close> and \<^verbatim>\<open>trim\<close> see the six ASCII white-space characters,
  and the case-insensitive match folds the ASCII letters.
\<close>

definition is_space :: "char \<Rightarrow> bool" where
  "is_space c = ((of_char c :: nat) = 32 \<or> (9 \<le> (of_char c :: nat) \<and> (of_char c :: nat) \<le> 13))"

definition trim :: "string \<Rightarrow> string" where
  "trim s = rev (dropWhile is_space (rev (dropWhile is_space s)))"

text \<open>\<^verbatim>\<open>split('\n')\<close>: an empty string gives one empty line.\<close>

fun split_lines :: "string \<Rightarrow> string list" where
  "split_lines [] = [[]]"
| "split_lines (c # cs) =
     (if c = CHR 0x0A then [] # split_lines cs
      else (case split_lines cs of [] \<Rightarrow> [[c]] | l # ls \<Rightarrow> (c # l) # ls))"

text \<open>The character class \<^verbatim>\<open>[\d.,]\<close>.\<close>

definition is_num_char :: "char \<Rightarrow> bool" where
  "is_num_char c = (is_digit c \<or> c = CHR ''.'' \<or> c = CHR '','')"

text \<open>
  \<^verbatim>\<open>line.match(/^(\d{2})\/(\d{2})\s*-\s*([\d.,]+)\s*kg/)\<close>: the three groups. Each
  starred or plussed class is followed by a character outside it, so the greedy match
  is the only one.
\<close>

definition match_date_line :: "string \<Rightarrow> (string \<times> string \<times> string) option" where
  "match_date_line line =
     (case line of
        d1 # d2 # sl # m1 # m2 # r \<Rightarrow>
          if is_digit d1 \<and> is_digit d2 \<and> sl = CHR ''/'' \<and> is_digit m1 \<and> is_digit m2
          then (case dropWhile is_space r of
                  [] \<Rightarrow> None
                | dash # r2 \<Rightarrow>
                    if dash = CHR ''-''
                    then (let r3 = dropWhile is_space r2;
                              w = takeWhile is_num_char r3;
                              r4 = dropWhile is_space (dropWhile is_num_char r3)
                          in if w \<noteq> [] \<and> take 2 r4 = ''kg'' then Some ([d1, d2], [m1, m2], w)
                             else None)
                    else None)
          else None
      | _ \<Rightarrow> None)"

definition lower :: "char \<Rightarrow> char" where
  "lower c = (if 65 \<le> (of_char c :: nat) \<and> (of_char c :: nat) \<le> 90
              then char_of ((of_char c :: nat) + 32) else c)"

text \<open>A literal matched at the head of a string, letters compared without case: the rest.\<close>

fun match_ci :: "string \<Rightarrow> string \<Rightarrow> string option" where
  "match_ci [] s = Some s"
| "match_ci (p # ps) [] = None"
| "match_ci (p # ps) (c # cs) = (if lower p = lower c then match_ci ps cs else None)"

text \<open>\<^verbatim>\<open>note.match(/mounjaro\s+([\d.,]+)\s*mg/i)\<close>: the group of the leftmost match.\<close>

definition med_at :: "string \<Rightarrow> string option" where
  "med_at s =
     (case match_ci ''mounjaro'' s of
        None \<Rightarrow> None
      | Some r \<Rightarrow>
          (let r2 = dropWhile is_space r;
               d = takeWhile is_num_char r2;
               r3 = dropWhile is_space (dropWhile is_num_char r2)
           in if takeWhile is_space r \<noteq> [] \<and> d \<noteq> [] \<and> match_ci ''mg'' r3 \<noteq> None
              then Some d else None))"

fun med_match :: "string \<Rightarrow> string option" where
  "med_match [] = None"
| "med_match (c # cs) =
     (case med_at (c # cs) of Some d \<Rightarrow> Some d | None \<Rightarrow> med_match cs)"

text \<open>\<^verbatim>\<open>s.replace(',', '.')\<close>: the first comma only.\<close>

fun replace_comma :: "string \<Rightarrow> string" where
  "replace_comma [] = []"
| "replace_comma (c # cs) = (if c = CHR '','' then CHR ''.'' # cs else c # replace_comma cs)"

text \<open>
  \<open>parseFloat\<close> on a string of digits, dots and commas (all that the two patterns
  let through): the longest prefix of the form digits, digits.digits or .digits; NaN
  when that prefix has no digit.
\<close>

definition parseFloat :: "string \<Rightarrow> jsnum" where
  "parseFloat s =
     (let ip = takeWhile is_digit s;
          r = dropWhile is_digit s;
          fp = (case r of [] \<Rightarrow> [] | c # cs \<Rightarrow> if c = CHR ''.'' then takeWhile is_digit cs else [])
      in if ip = [] \<and> fp = [] then NaN
         else Fin (of_nat (digits_value ip) + of_nat (digits_value fp) / 10 ^ length fp))"

text \<open>
  \<open>parseInt\<close> without a radix: leading white space, a sign, a hexadecimal prefix,
  then the longest run of digits; NaN (\<open>None\<close>) when there is none.
\<close>

definition hex_val :: "char \<Rightarrow> nat option" where
  "hex_val c =
     (if is_digit c then Some (digit_val c)
      else if 97 \<le> (of_char (lower c) :: nat) \<and> (of_char (lower c) :: nat) \<le> 102
      then Some ((of_char (lower c) :: nat) - 87) else None)"

definition parse_digits :: "string \<Rightarrow> nat option" where
  "parse_digits s =
     (if take 2 (map lower s) = ''0x''
      then (let h = takeWhile (\<lambda>c. hex_val c \<noteq> None) (drop 2 s)
            in if h = [] then None
               else Some (foldl (\<lambda>acc c. acc * 16 + (case hex_val c of Some v \<Rightarrow> v | None \<Rightarrow> 0)) 0 h))
      else (let d = takeWhile is_digit s
            in if d = [] then None else Some (digits_value d)))"

definition parseInt :: "string \<Rightarrow> int option" where
  "parseInt s =
     (case dropWhile is_space s of
        [] \<Rightarrow> None
      | c # cs \<Rightarrow>
          if c = CHR ''-'' then map_option (\<lambda>n. - int n) (parse_digits cs)
          else if c = CHR ''+'' then map_option int (parse_digits cs)
          else map_option int (parse_digits (c # cs)))"

text \<open>
  The entry objects the parser builds live in a heap (an address is an index), because
  the list of parsed entries and the variable for the open entry hold references: the
  same object can be pushed twice, and a write through one reference shows through the
  other. The notes field is an array while lines are read, a string or null afterwards.
\<close>

datatype notes_val = NArr "string list" | NStr string | NNull

record draft =
  d_id :: jsnum
  d_date :: string
  d_weight :: jsnum
  d_notes :: notes_val
  d_type :: string
  d_dose :: jsval

record pstate =
  heap :: "draft list"
  parsedEntries :: "nat list"
  currentEntry :: "nat option"

definition obj :: "draft list \<Rightarrow> nat \<Rightarrow> draft option" where
  "obj h a = (if a < length h then Some (h ! a) else None)"

text \<open>
  One pass of the loop body on a raw line. \<open>tz\<close> is the zone offset in minutes,
  \<open>year\<close> the text of the year field, \<open>fresh\<close> the clock plus a random fraction.
  The previous entry is pushed before the day and month are checked, and the rejected
  header leaves the variable for the open entry as it was.
\<close>

definition parse_line :: "int \<Rightarrow> string \<Rightarrow> rat \<Rightarrow> pstate \<Rightarrow> string \<Rightarrow> js_error + pstate" where
  "parse_line tz year fresh st raw =
     (let line = trim raw
      in if line = [] then Inr st
         else
           (case match_date_line line of
              Some (dd, mm, w) \<Rightarrow>
                (let st1 = (case currentEntry st of
                              Some a \<Rightarrow> st\<lparr>parsedEntries := parsedEntries st @ [a]\<rparr>
                            | None \<Rightarrow> st);
                     weight = parseFloat (replace_comma w)
                 in case (parseInt dd, parseInt mm) of
                      (Some day, Some month) \<Rightarrow>
                        if day < 1 \<or> 31 < day \<or> month < 1 \<or> 12 < month then Inr st1
                        else
                          (case make_date tz (parseInt year) (month - 1) day 12 0 of
                             None \<Rightarrow> Inl RangeError
                           | Some t \<Rightarrow>
                               Inr (st1\<lparr>heap := heap st1 @
                                           [\<lparr>d_id = Fin fresh, d_date = take 16 (toISOString t),
                                             d_weight = weight, d_notes = NArr [],
                                             d_type = ''daily'', d_dose = JNull\<rparr>],
                                         currentEntry := Some (length (heap st1))\<rparr>))
                    | _ \<Rightarrow> Inl RangeError)
            | None \<Rightarrow>
                (case (line, currentEntry st) of
                   (c # rest, Some a) \<Rightarrow>
                     if c = CHR ''-''
                     then (let note = trim rest
                           in case obj (heap st) a of
                                None \<Rightarrow> Inl TypeError
                              | Some d \<Rightarrow>
                                  (case med_match note of
                                     Some g \<Rightarrow>
                                       Inr (st\<lparr>heap := (heap st)[a := d\<lparr>d_type := ''medication'',
                                              d_dose := JStr (num_to_string (parseFloat (replace_comma g)) @ ''mg'')\<rparr>]\<rparr>)
                                   | None \<Rightarrow>
                                       if note \<noteq> []
                                       then (case d_notes d of
                                               NArr ns \<Rightarrow>
                                                 Inr (st\<lparr>heap := (heap st)[a := d\<lparr>d_notes := NArr (ns @ [note])\<rparr>]\<rparr>)
                                             | _ \<Rightarrow> Inl TypeError)
                                       else Inr st))
                     else Inr st
                 | _ \<Rightarrow> Inr st)))"

fun parse_lines ::
  "int \<Rightarrow> string \<Rightarrow> (nat \<Rightarrow> rat) \<Rightarrow> nat \<Rightarrow> pstate \<Rightarrow> string list \<Rightarrow> js_error + pstate" where
  "parse_lines tz year fresh i st [] = Inr st"
| "parse_lines tz year fresh i st (l # ls) =
     (case parse_line tz year (fresh i) st l of
        Inl err \<Rightarrow> Inl err
      | Inr st1 \<Rightarrow> parse_lines tz year fresh (Suc i) st1 ls)"

text \<open>\<^verbatim>\<open>notes.join('. ')\<close>.\<close>

fun join_notes :: "string list \<Rightarrow> string" where
  "join_notes [] = []"
| "join_notes [n] = n"
| "join_notes (n # ns) = n @ ''. '' @ join_notes ns"

text \<open>
  The closing loop over the parsed list, turning each notes array into a string or
  null. It reads \<^verbatim>\<open>entry.notes.length\<close> and calls \<^verbatim>\<open>entry.notes.join\<close>: on an object
  met a second time the field is null (reading its length throws) or a string (which
  has no join).
\<close>

fun finish_notes :: "draft list \<Rightarrow> nat list \<Rightarrow> js_error + draft list" where
  "finish_notes h [] = Inr h"
| "finish_notes h (a # as) =
     (case obj h a of
        None \<Rightarrow> Inl TypeError
      | Some d \<Rightarrow>
          (case d_notes d of
             NArr ns \<Rightarrow>
               finish_notes (h[a := d\<lparr>d_notes := (if 0 < length ns then NStr (join_notes ns) else NNull)\<rparr>]) as
           | NStr t \<Rightarrow>
               if 0 < length t then Inl TypeError
               else finish_notes (h[a := d\<lparr>d_notes := NNull\<rparr>]) as
           | NNull \<Rightarrow> Inl TypeError))"

text \<open>
  What \<open>parseTextData\<close> ends with: the request to paste data, the error message of a
  caught exception, or the preview of the parsed entries (which it also keeps for the
  import).
\<close>

datatype parse_outcome = Please_paste | Parse_error js_error | Preview "draft list"

definition parseTextData :: "int \<Rightarrow> (nat \<Rightarrow> rat) \<Rightarrow> string \<Rightarrow> string \<Rightarrow> parse_outcome" where
  "parseTextData tz fresh text year =
     (let importData = trim text
      in if importData = [] then Please_paste
         else
           (case parse_lines tz year fresh 0 \<lparr>heap = [], parsedEntries = [], currentEntry = None\<rparr>
                   (split_lines importData) of
              Inl err \<Rightarrow> Parse_error err
            | Inr st \<Rightarrow>
                (let parsed = (case currentEntry st of
                                 Some a \<Rightarrow> parsedEntries st @ [a]
                               | None \<Rightarrow> parsedEntries st)
                 in case finish_notes (heap st) parsed of
                      Inl err \<Rightarrow> Parse_error err
                    | Inr h \<Rightarrow> Preview (List.map_filter (obj h) parsed))))"

section \<open>The trend calculator (ChartRenderer)\<close>

text \<open>Arithmetic of numbers with the non-finite cases written out; a zero divisor is +0.\<close>

fun num_neg :: "jsnum \<Rightarrow> jsnum" where
  "num_neg (Fin a) = Fin (- a)"
| "num_neg PosInf = NegInf"
| "num_neg NegInf = PosInf"
| "num_neg NaN = NaN"

fun num_add :: "jsnum \<Rightarrow> jsnum \<Rightarrow> jsnum" where
  "num_add (Fin a) (Fin b) = Fin (a + b)"
| "num_add NaN b = NaN"
| "num_add a NaN = NaN"
| "num_add PosInf NegInf = NaN"
| "num_add NegInf PosInf = NaN"
| "num_add PosInf b = PosInf"
| "num_add NegInf b = NegInf"
| "num_add (Fin a) b = b"

definition num_sub :: "jsnum \<Rightarrow> jsnum \<Rightarrow> jsnum" where
  "num_sub a b = num_add a (num_neg b)"

fun num_sgn :: "jsnum \<Rightarrow> int" where
  "num_sgn (Fin a) = (if a < 0 then - 1 else if a = 0 then 0 else 1)"
| "num_sgn PosInf = 1"
| "num_sgn NegInf = - 1"
| "num_sgn NaN = 0"

definition signed_inf :: "int \<Rightarrow> jsnum" where
  "signed_inf k = (if k = 0 then NaN else if 0 < k then PosInf else NegInf)"

fun num_mul :: "jsnum \<Rightarrow> jsnum \<Rightarrow> jsnum" where
  "num_mul (Fin a) (Fin b) = Fin (a * b)"
| "num_mul NaN b = NaN"
| "num_mul a NaN = NaN"
| "num_mul a b = signed_inf (num_sgn a * num_sgn b)"

fun num_div :: "jsnum \<Rightarrow> jsnum \<Rightarrow> jsnum" where
  "num_div (Fin a) (Fin b) = (if b = 0 then signed_inf (num_sgn (Fin a)) else Fin (a / b))"
| "num_div NaN b = NaN"
| "num_div a NaN = NaN"
| "num_div (Fin a) b = Fin 0"
| "num_div a (Fin b) = signed_inf (num_sgn a * (if b < 0 then - 1 else 1))"
| "num_div a b = NaN"

text \<open>\<^verbatim>\<open>a < b\<close> on numbers: false whenever a side is NaN.\<close>

fun num_less :: "jsnum \<Rightarrow> jsnum \<Rightarrow> bool" where
  "num_less (Fin a) (Fin b) = (a < b)"
| "num_less NaN b = False"
| "num_less a NaN = False"
| "num_less a NegInf = False"
| "num_less PosInf b = False"
| "num_less a b = True"

text \<open>
  A chart point: the time value of its date (a Date object or a number, read as
  milliseconds either way) and its weight.
\<close>

record point =
  p_date :: jsnum
  p_weight :: jsnum

record trend =
  slope :: jsnum
  intercept :: jsnum
  xValues :: "jsnum list"
  firstDate :: jsnum

text \<open>The sums of the regression, and the two sides of the quotient that is the slope.\<close>

definition sum_nums :: "jsnum list \<Rightarrow> jsnum" where
  "sum_nums vs = foldl num_add (Fin 0) vs"

definition sum_products :: "jsnum list \<Rightarrow> jsnum list \<Rightarrow> jsnum" where
  "sum_products xs ys = foldl (\<lambda>sum (x, y). num_add sum (num_mul x y)) (Fin 0) (zip xs ys)"

definition slope_numerator :: "jsnum list \<Rightarrow> jsnum list \<Rightarrow> jsnum" where
  "slope_numerator xs ys =
     num_sub (num_mul (Fin (of_nat (length xs))) (sum_products xs ys))
             (num_mul (sum_nums xs) (sum_nums ys))"

definition slope_denominator :: "jsnum list \<Rightarrow> jsnum" where
  "slope_denominator xs =
     num_sub (num_mul (Fin (of_nat (length xs))) (sum_products xs xs))
             (num_mul (sum_nums xs) (sum_nums xs))"

definition calculateTrendLine :: "point list \<Rightarrow> trend option" where
  "calculateTrendLine data =
     (case data of
        d0 # d1 # rest \<Rightarrow>
          (let first = p_date d0;
               xs = map (\<lambda>d. num_div (num_sub (p_date d) first) (Fin (1000 * 60 * 60 * 24))) data;
               ys = map p_weight data;
               sl = num_div (slope_numerator xs ys) (slope_denominator xs);
               ic = num_div (num_sub (sum_nums ys) (num_mul sl (sum_nums xs)))
                            (Fin (of_nat (length data)))
           in Some \<lparr>slope = sl, intercept = ic, xValues = xs, firstDate = first\<rparr>)
      | _ \<Rightarrow> None)"

text \<open>
  The trend statistics of \<open>drawEnhancedLegend\<close>: nothing below three points; else the
  change over the window and its direction.
\<close>

datatype direction = Rising | Falling | Stable

definition legend_trend :: "point list \<Rightarrow> (direction \<times> jsnum) option" where
  "legend_trend weightEntries =
     (if 3 \<le> length weightEntries
      then (case calculateTrendLine weightEntries of
              None \<Rightarrow> None
            | Some trendData \<Rightarrow>
                (let weightChange = num_mul (slope trendData) (last (xValues trendData))
                 in Some (if num_less (Fin (1 / 10)) weightChange then Rising
                          else if num_less weightChange (Fin (- (1 / 10))) then Falling
                          else Stable,
                          weightChange)))
      else None)"

text \<open>The two values an offset, a sum or a product can take when all dates coincide.\<close>

definition zero_or_nan :: "jsnum \<Rightarrow> bool" where
  "zero_or_nan v = (v = Fin 0 \<or> v = NaN)"

section \<open>Order and validity of stored dates\<close>

text \<open>
  Newest first: each entry's date is at or after the date of the entry that follows
  it. With an invalid date on either side the comparison is false.
\<close>

definition date_ge :: "(string \<Rightarrow> int option) \<Rightarrow> entry \<Rightarrow> entry \<Rightarrow> bool" where
  "date_ge P a b =
     (case (date_value P (e_date a), date_value P (e_date b)) of
        (Some ta, Some tb) \<Rightarrow> tb \<le> ta
      | _ \<Rightarrow> False)"

fun newest_first :: "(string \<Rightarrow> int option) \<Rightarrow> entry list \<Rightarrow> bool" where
  "newest_first P (x # y # r) = (date_ge P x y \<and> newest_first P (y # r))"
| "newest_first P r = True"

text \<open>The part of validation that the sort relies on: the date parses.\<close>

definition date_ok :: "(string \<Rightarrow> int option) \<Rightarrow> entry \<Rightarrow> bool" where
  "date_ok P e = (date_value P (e_date e) \<noteq> None)"

definition time_of :: "(string \<Rightarrow> int option) \<Rightarrow> entry \<Rightarrow> int" where
  "time_of P e = (case date_value P (e_date e) of Some t \<Rightarrow> t | None \<Rightarrow> 0)"

text \<open>
  The invariant of the store that the operations keep: every date in the list and in
  the mirror parses.
\<close>

definition store_ok :: "(string \<Rightarrow> int option) \<Rightarrow> store \<Rightarrow> bool" where
  "store_ok P s =
     (list_all (date_ok P) (entries s) \<and>
      (case storage s of Saved es \<Rightarrow> list_all (date_ok P) es | _ \<Rightarrow> True))"

text \<open>
  The dedup key as a total function, and \<open>removeDuplicates\<close> as the plain filter it is
  when every entry has a key.
\<close>

definition has_key :: "entry \<Rightarrow> bool" where
  "has_key e = (dedup_key e \<noteq> None)"

definition key_of :: "entry \<Rightarrow> string" where
  "key_of e = (case dedup_key e of Some k \<Rightarrow> k | None \<Rightarrow> [])"

fun uniq :: "string set \<Rightarrow> entry list \<Rightarrow> entry list" where
  "uniq seen [] = []"
| "uniq seen (e # es) =
     (if key_of e \<in> seen then uniq seen es else e # uniq (insert (key_of e) seen) es)"

text \<open>The dates that have a \<^verbatim>\<open>split\<close> method.\<close>

fun is_string :: "jsval \<Rightarrow> bool" where
  "is_string (JStr s) = True"
| "is_string v = False"

text \<open>
  For the parser's heap: a notes field still open (an array of non-empty notes) or
  already closed (null or a non-empty string); a heap whose objects are all one or
  the other; and a parser state in which some object is due to appear twice in the
  parsed list.
\<close>

definition open_notes :: "draft \<Rightarrow> bool" where
  "open_notes d = (case d_notes d of NArr ns \<Rightarrow> [] \<notin> set ns | _ \<Rightarrow> False)"

definition settled :: "draft \<Rightarrow> bool" where
  "settled d = (case d_notes d of NArr ns \<Rightarrow> False | NStr t \<Rightarrow> t \<noteq> [] | NNull \<Rightarrow> True)"

definition heap_known :: "draft list \<Rightarrow> bool" where
  "heap_known h = list_all (\<lambda>d. open_notes d \<or> settled d) h"

definition pushed_twice :: "pstate \<Rightarrow> bool" where
  "pushed_twice st =
     (\<not> distinct (parsedEntries st) \<or>
      (case currentEntry st of Some a \<Rightarrow> a \<in> set (parsedEntries st) | None \<Rightarrow> False))"

section \<open>Concrete inputs\<close>

definition empty_store :: store where
  "empty_store = \<lparr>entries = [], storage = Absent\<rparr>"

text \<open>Two entries as the forms and the importer produce them, for concrete runs.\<close>

definition entry_a :: entry where
  "entry_a =
     \<lparr>e_id = JNum (Fin 1), e_type = JStr ''daily'', e_date = JStr ''2025-03-02T12:00'',
      e_weight = JStr ''82.1'', e_notes = JNull, e_dose = JUndefined\<rparr>"

definition entry_b :: entry where
  "entry_b =
     \<lparr>e_id = JNum (Fin 2), e_type = JStr ''medication'', e_date = JStr ''2025-03-01T12:00'',
      e_weight = JNum (Fin (165 / 2)), e_notes = JStr ''felt fine'', e_dose = JStr ''5mg''\<rparr>"

text \<open>An entry as a JSON import can deliver it: the date is a number of milliseconds.\<close>

definition entry_n :: entry where
  "entry_n =
     \<lparr>e_id = JNum (Fin 3), e_type = JStr ''daily'', e_date = JNum (Fin 1740830400000),
      e_weight = JNum (Fin 82), e_notes = JNull, e_dose = JUndefined\<rparr>"

text \<open>The four-line log of the specification, and a log with a day out of range.\<close>

definition sample_text :: string where
  "sample_text =
     ''01/03 - 82,5 kg'' @ [CHR 0x0A] @ ''- mounjaro 5 mg'' @ [CHR 0x0A] @ ''- felt fine''
       @ [CHR 0x0A] @ ''02/03 - 82,1 kg''"

definition bad_header_text :: string where
  "bad_header_text = ''01/03 - 82 kg'' @ [CHR 0x0A] @ ''32/01 - 70 kg''"

definition bad_header_between :: string where
  "bad_header_between =
     ''01/03 - 82 kg'' @ [CHR 0x0A] @ ''32/01 - 70 kg'' @ [CHR 0x0A] @ ''02/03 - 81 kg''"

section \<open>Properties of the entry store\<close>

text \<open>
  C7. \<open>deleteEntry\<close> answers true exactly when some stored entry has the given id
  (under strict equality); the list it leaves is the old one without the matching
  entries; when nothing matches, the whole store, mirror included, is as before, and
  when something matches the mirror is rewritten from the new list if the write succeeds.
\<close>

theorem deleteEntry_correct:
  "fst (deleteEntry wr i s) = (\<exists>e \<in> set (entries s). strict_eq (e_id e) i) \<and>
   entries (snd (deleteEntry wr i s)) = filter (\<lambda>e. \<not> strict_eq (e_id e) i) (entries s) \<and>
   (\<not> fst (deleteEntry wr i s) \<longrightarrow> snd (deleteEntry wr i s) = s) \<and>
   (fst (deleteEntry wr i s) \<longrightarrow>
      storage (snd (deleteEntry wr i s)) =
        (if wr then Saved (map json_entry (entries (snd (deleteEntry wr i s)))) else storage s))"
proof -
  let ?keep = "filter (\<lambda>e. \<not> strict_eq (e_id e) i) (entries s)"
  have len: "length ?keep < length (entries s) \<longleftrightarrow> (\<exists>e \<in> set (entries s). strict_eq (e_id e) i)"
  proof
    assume "length ?keep < length (entries s)"
    then have "?keep \<noteq> entries s" by auto
    then show "\<exists>e \<in> set (entries s). strict_eq (e_id e) i"
      by (metis (mono_tags, lifting) filter_True)
  next
    assume "\<exists>e \<in> set (entries s). strict_eq (e_id e) i"
    then show "length ?keep < length (entries s)"
      by (metis (mono_tags, lifting) length_filter_less)
  qed
  have same: "\<not> (\<exists>e \<in> set (entries s). strict_eq (e_id e) i) \<Longrightarrow> ?keep = entries s"
    by (simp add: filter_id_conv)
  show ?thesis
    using len same by (auto simp: deleteEntry_def Let_def saveData_def)
qed

theorem deleteEntry_correct_witness:
  "fst (deleteEntry True (JNum (Fin 2)) \<lparr>entries = [entry_a, entry_b], storage = Absent\<rparr>) \<and>
   entries (snd (deleteEntry True (JNum (Fin 2)) \<lparr>entries = [entry_a, entry_b], storage = Absent\<rparr>))
     = [entry_a] \<and>
   storage (snd (deleteEntry True (JNum (Fin 2)) \<lparr>entries = [entry_a, entry_b], storage = Absent\<rparr>))
     = Saved [entry_a] \<and>
   \<not> fst (deleteEntry True (JNum (Fin 7)) \<lparr>entries = [entry_a, entry_b], storage = Absent\<rparr>) \<and>
   snd (deleteEntry True (JNum (Fin 7)) \<lparr>entries = [entry_a, entry_b], storage = Absent\<rparr>)
     = \<lparr>entries = [entry_a, entry_b], storage = Absent\<rparr>"
  using deleteEntry_correct [of True "JNum (Fin 2)" "\<lparr>entries = [entry_a, entry_b], storage = Absent\<rparr>"]
        deleteEntry_correct [of True "JNum (Fin 7)" "\<lparr>entries = [entry_a, entry_b], storage = Absent\<rparr>"]
  by (simp add: strict_eq_def entry_a_def entry_b_def json_entry_def)

text \<open>
  C9. Validation never looks at the weight. An entry whose type is one of the two
  kinds, whose date is present and parses, and which carries a dose when it is a
  medication entry, is accepted whatever value \<open>w\<close> its weight field holds (a number, a
  string that is not a number, null, anything); \<open>addEntry\<close> then puts it at the head of
  the list with that weight untouched, the entry itself changing only when it had no
  id and gets one. The copy written to the mirror carries the same weight too, unless
  the weight is a number that is not finite, which JSON writes as null.
\<close>

theorem validateEntry_weight_free:
  assumes "e_type e = JStr ''daily'' \<or> e_type e = JStr ''medication''"
    and "truthy (e_date e)"
    and "date_value P (e_date e) \<noteq> None"
    and "e_type e = JStr ''medication'' \<longrightarrow> truthy (e_dose e)"
  shows "validateEntry P (e\<lparr>e_weight := w\<rparr>) \<and>
         addEntry P fresh wr (e\<lparr>e_weight := w\<rparr>) s
           = (Inr (), saveData wr (s\<lparr>entries := stamp fresh (e\<lparr>e_weight := w\<rparr>) # entries s\<rparr>)) \<and>
         e_weight (stamp fresh (e\<lparr>e_weight := w\<rparr>)) = w \<and>
         (truthy (e_id e) \<longrightarrow> stamp fresh (e\<lparr>e_weight := w\<rparr>) = e\<lparr>e_weight := w\<rparr>) \<and>
         e_weight (json_entry (stamp fresh (e\<lparr>e_weight := w\<rparr>))) = json_value w \<and>
         (w \<noteq> JNum NaN \<and> w \<noteq> JNum PosInf \<and> w \<noteq> JNum NegInf \<longrightarrow> json_value w = w)"
proof -
  have v: "validateEntry P (e\<lparr>e_weight := w\<rparr>)"
    using assms by (auto simp: validateEntry_def)
  have j: "w \<noteq> JNum NaN \<and> w \<noteq> JNum PosInf \<and> w \<noteq> JNum NegInf \<longrightarrow> json_value w = w"
    by (cases w rule: json_value.cases) auto
  from v j show ?thesis
    by (simp add: addEntry_def stamp_def json_entry_def)
qed

theorem validateEntry_weight_free_witness:
  "validateEntry (parse_local_minutes 0) (entry_a\<lparr>e_weight := JStr ''heavy''\<rparr>) \<and>
   entries (snd (addEntry (parse_local_minutes 0) 7 True (entry_a\<lparr>e_weight := JStr ''heavy''\<rparr>)
                   \<lparr>entries = [entry_b], storage = Absent\<rparr>))
     = [entry_a\<lparr>e_weight := JStr ''heavy''\<rparr>, entry_b] \<and>
   fst (addEntry (parse_local_minutes 0) 7 True (entry_a\<lparr>e_weight := JStr ''heavy''\<rparr>)
                   \<lparr>entries = [entry_b], storage = Absent\<rparr>) = Inr ()"
proof -
  have d: "date_value (parse_local_minutes 0) (e_date entry_a) \<noteq> None"
    unfolding entry_a_def by code_simp
  have t: "e_type entry_a = JStr ''daily'' \<or> e_type entry_a = JStr ''medication''"
    by (simp add: entry_a_def)
  have y: "truthy (e_date entry_a)" by (simp add: entry_a_def)
  have m: "e_type entry_a = JStr ''medication'' \<longrightarrow> truthy (e_dose entry_a)"
    by (simp add: entry_a_def)
  have i: "truthy (e_id entry_a)" by (simp add: entry_a_def)
  show ?thesis
    using validateEntry_weight_free [OF t y d m, of "JStr ''heavy''" 7 True
        "\<lparr>entries = [entry_b], storage = Absent\<rparr>"] i
    by (simp add: saveData_def)
qed

subsection \<open>Sorting by date\<close>

lemma insert_by_date_insort:
  "date_ok P x \<Longrightarrow> list_all (date_ok P) ys \<Longrightarrow>
   insert_by_date P x ys = insort_key (\<lambda>e. - time_of P e) x ys"
  by (induction ys) (auto simp: date_ok_def time_of_def date_cmp_def cmp_pos_def)

lemma sort_entries_sort_key:
  "list_all (date_ok P) es \<Longrightarrow> sort_entries P es = sort_key (\<lambda>e. - time_of P e) es"
proof (induction es)
  case Nil
  then show ?case by (simp add: sort_entries_def)
next
  case (Cons x es)
  then have "list_all (date_ok P) (sort_key (\<lambda>e. - time_of P e) es)"
    by (simp add: list_all_iff)
  with Cons show ?case
    by (simp add: sort_entries_def insert_by_date_insort)
qed

lemma date_ge_time:
  "date_ok P a \<Longrightarrow> date_ok P b \<Longrightarrow> date_ge P a b = (- time_of P a \<le> - time_of P b)"
  by (auto simp: date_ok_def date_ge_def time_of_def)

lemma sorted_wrt_date_ge:
  "list_all (date_ok P) es \<Longrightarrow>
   sorted_wrt (date_ge P) es = sorted (map (\<lambda>e. - time_of P e) es)"
  by (induction es) (auto simp: list_all_iff date_ge_time)

lemma newest_first_sorted_wrt:
  "list_all (date_ok P) es \<Longrightarrow> newest_first P es = sorted_wrt (date_ge P) es"
proof (induction P es rule: newest_first.induct)
  case (1 P x y r)
  have "date_ge P x y \<Longrightarrow> sorted_wrt (date_ge P) (y # r) \<Longrightarrow> \<forall>z \<in> set r. date_ge P x z"
    using 1(2) by (auto simp: list_all_iff date_ge_time)
  with 1 show ?case by auto
qed simp_all

lemma sort_entries_sorted:
  "list_all (date_ok P) es \<Longrightarrow> sorted_wrt (date_ge P) (sort_entries P es)"
  by (simp add: sort_entries_sort_key sorted_wrt_date_ge list_all_iff)

lemma sort_entries_set: "list_all (date_ok P) es \<Longrightarrow> set (sort_entries P es) = set es"
  by (simp add: sort_entries_sort_key)

lemma sort_entries_count:
  "list_all (date_ok P) es \<Longrightarrow> count_list (sort_entries P es) x = count_list es x"
  by (simp add: sort_entries_sort_key count_list_eq_length_filter filter_sort)

lemma json_value_date: "date_value P d \<noteq> None \<Longrightarrow> json_value d = d"
  by (cases d rule: json_value.cases) (auto simp: time_clip_def)

lemma json_entry_date_ok: "date_ok P e \<Longrightarrow> date_ok P (json_entry e)"
  by (simp add: date_ok_def json_entry_def json_value_date)

lemma validateEntry_date_ok: "validateEntry P e \<Longrightarrow> date_ok P e"
  by (auto simp: validateEntry_def date_ok_def split: if_splits)

lemma stamp_date_ok: "date_ok P (stamp fresh e) = date_ok P e"
  by (simp add: date_ok_def stamp_def)

text \<open>
  C2. Take a store whose entries all have dates that parse, a valid entry \<open>e\<close>, and
  suppose no stored entry has the same persisted form as \<open>e\<close> (after \<open>e\<close> got its id).
  When the write and the read of local storage succeed, \<open>addEntry\<close> returns normally and
  the list that \<open>loadData\<close> then builds holds the persisted form of \<open>e\<close> exactly once, holds
  besides it exactly the persisted forms of the old entries, and is in descending date
  order throughout: every entry placed before another has the later or equal date. The
  persisted form is \<open>e\<close> itself when \<open>e\<close> came with an id and with fields JSON can carry.
\<close>

theorem add_then_load:
  assumes "validateEntry P e"
    and "list_all (date_ok P) (entries s)"
    and "json_entry (stamp fresh e) \<notin> json_entry ` set (entries s)"
  shows "fst (addEntry P fresh True e s) = Inr () \<and>
         count_list (entries (loadData P True (snd (addEntry P fresh True e s))))
           (json_entry (stamp fresh e)) = 1 \<and>
         sorted_wrt (date_ge P) (entries (loadData P True (snd (addEntry P fresh True e s)))) \<and>
         set (entries (loadData P True (snd (addEntry P fresh True e s))))
           = json_entry ` set (stamp fresh e # entries s) \<and>
         (truthy (e_id e) \<and> json_entry e = e \<longrightarrow> json_entry (stamp fresh e) = e)"
proof -
  let ?new = "stamp fresh e"
  let ?saved = "map json_entry (?new # entries s)"
  have ok: "list_all (date_ok P) ?saved"
    using assms(1,2) by (simp add: list_all_iff json_entry_date_ok validateEntry_date_ok stamp_date_ok)
  have load: "entries (loadData P True (snd (addEntry P fresh True e s))) = sort_entries P ?saved"
    using assms(1) by (simp add: addEntry_def saveData_def loadData_def)
  have cnt: "count_list ?saved (json_entry ?new) = 1"
    using assms(3) by (simp add: count_list_0_iff)
  have same: "truthy (e_id e) \<Longrightarrow> stamp fresh e = e"
    by (simp add: stamp_def)
  show ?thesis
    unfolding load
    using assms(1) cnt same sort_entries_sorted [OF ok] sort_entries_count [OF ok]
      sort_entries_set [OF ok]
    by (auto simp: addEntry_def)
qed

theorem add_then_load_witness:
  "fst (addEntry (parse_local_minutes 0) 9 True entry_b \<lparr>entries = [entry_a], storage = Absent\<rparr>)
     = Inr () \<and>
   entries (loadData (parse_local_minutes 0) True
      (snd (addEntry (parse_local_minutes 0) 9 True entry_b \<lparr>entries = [entry_a], storage = Absent\<rparr>)))
     = [entry_a, entry_b] \<and>
   count_list (entries (loadData (parse_local_minutes 0) True
      (snd (addEntry (parse_local_minutes 0) 9 True entry_b \<lparr>entries = [entry_a], storage = Absent\<rparr>))))
      entry_b = 1 \<and>
   sorted_wrt (date_ge (parse_local_minutes 0)) (entries (loadData (parse_local_minutes 0) True
      (snd (addEntry (parse_local_minutes 0) 9 True entry_b \<lparr>entries = [entry_a], storage = Absent\<rparr>))))"
proof -
  have v: "validateEntry (parse_local_minutes 0) entry_b"
    by code_simp
  have d: "list_all (date_ok (parse_local_minutes 0)) (entries \<lparr>entries = [entry_a], storage = Absent\<rparr>)"
    by code_simp
  have j: "json_entry (stamp 9 entry_b) = entry_b"
    by code_simp
  have n: "json_entry (stamp 9 entry_b)
             \<notin> json_entry ` set (entries \<lparr>entries = [entry_a], storage = Absent\<rparr>)"
    by (simp add: j) (simp add: entry_a_def entry_b_def json_entry_def)
  have l: "entries (loadData (parse_local_minutes 0) True
      (snd (addEntry (parse_local_minutes 0) 9 True entry_b \<lparr>entries = [entry_a], storage = Absent\<rparr>)))
     = [entry_a, entry_b]"
    by code_simp
  show ?thesis
    using add_then_load [OF v d n] l by (simp add: j)
qed

subsection \<open>The dates of a store always parse\<close>

lemma validate_all_date_ok:
  "list_all (date_ok P) (fst (validate_all P fresh i A))"
proof (induction A arbitrary: i)
  case Nil
  then show ?case by simp
next
  case (Cons c A)
  show ?case
  proof (cases c)
    case (Obj e)
    then show ?thesis
      using Cons [of "Suc i"]
      by (auto simp: stamp_date_ok validateEntry_date_ok split: prod.splits)
  next
    case (Prim v)
    then show ?thesis
      using Cons [of "Suc i"] by (auto split: prod.splits)
  qed
qed

lemma unique_entries_subset:
  "unique_entries seen es = Some us \<Longrightarrow> set us \<subseteq> set es"
proof (induction es arbitrary: seen us)
  case Nil
  then show ?case by simp
next
  case (Cons e es)
  then show ?case
    by (fastforce split: option.splits if_splits)
qed

lemma store_ok_saveData: "store_ok P s \<Longrightarrow> store_ok P (saveData wr s)"
  by (auto simp: store_ok_def saveData_def list_all_iff json_entry_date_ok)

lemma store_ok_entries:
  "store_ok P s \<Longrightarrow> list_all (date_ok P) es \<Longrightarrow> store_ok P (s\<lparr>entries := es\<rparr>)"
  by (simp add: store_ok_def)

lemma store_ok_addEntry: "store_ok P s \<Longrightarrow> store_ok P (snd (addEntry P fresh wr e s))"
proof (cases "validateEntry P e")
  case True
  assume "store_ok P s"
  then have "store_ok P (s\<lparr>entries := stamp fresh e # entries s\<rparr>)"
    using True by (simp add: store_ok_def stamp_date_ok validateEntry_date_ok)
  then show ?thesis
    using True by (simp add: addEntry_def store_ok_saveData)
next
  case False
  assume "store_ok P s"
  then show ?thesis using False by (simp add: addEntry_def)
qed

lemma store_ok_deleteEntry: "store_ok P s \<Longrightarrow> store_ok P (snd (deleteEntry wr i s))"
proof -
  assume a: "store_ok P s"
  then have "store_ok P (s\<lparr>entries := filter (\<lambda>e. \<not> strict_eq (e_id e) i) (entries s)\<rparr>)"
    by (simp add: store_ok_def list_all_iff)
  then show ?thesis
    by (simp add: deleteEntry_def Let_def store_ok_saveData)
qed

lemma store_ok_loadData: "store_ok P s \<Longrightarrow> store_ok P (loadData P avail s)"
  by (auto simp: loadData_def store_ok_def sort_entries_set list_all_iff split: stored.splits)

lemma store_ok_importEntries:
  assumes "store_ok P s"
  shows "store_ok P (fst (snd (importEntries P fresh wr A s)))"
proof -
  obtain vs errs arr where v: "validate_all P fresh 0 A = (vs, errs, arr)"
    by (cases "validate_all P fresh 0 A") auto
  have vs: "list_all (date_ok P) vs"
    using validate_all_date_ok [of P fresh 0 A] v by simp
  have merged: "list_all (date_ok P) (vs @ entries s)"
    using vs assms by (simp add: store_ok_def)
  show ?thesis
  proof (cases "unique_entries {} (vs @ entries s)")
    case None
    then show ?thesis
      using v assms merged by (auto simp: importEntries_def removeDuplicates_def store_ok_def)
  next
    case (Some us)
    then have "list_all (date_ok P) us"
      using unique_entries_subset [OF Some] merged by (auto simp: list_all_iff)
    then have "list_all (date_ok P) (sort_entries P us)"
      by (simp add: sort_entries_set list_all_iff)
    then have "store_ok P (s\<lparr>entries := sort_entries P us\<rparr>)"
      using assms by (simp add: store_ok_def)
    then have "store_ok P (saveData wr (s\<lparr>entries := sort_entries P us\<rparr>))"
      by (rule store_ok_saveData)
    then show ?thesis
      using v Some assms by (auto simp: importEntries_def removeDuplicates_def)
  qed
qed

text \<open>
  The empty store has the invariant and every operation of the store keeps it,
  whatever its arguments and whether or not it fails. This is the hypothesis on the
  store in the theorems around it.
\<close>

theorem store_dates_always_parse:
  "store_ok P empty_store \<and>
   (store_ok P s \<longrightarrow>
      store_ok P (snd (addEntry P fresh wr e s)) \<and>
      store_ok P (snd (deleteEntry wr i s)) \<and>
      store_ok P (fst (snd (importEntries P fresh' wr A s))) \<and>
      store_ok P (loadData P avail s))"
  by (simp add: store_ok_addEntry store_ok_deleteEntry store_ok_importEntries store_ok_loadData)
     (simp add: store_ok_def empty_store_def)

subsection \<open>Order after a mutation\<close>

lemma newest_first_filter:
  "list_all (date_ok P) es \<Longrightarrow> newest_first P es \<Longrightarrow> newest_first P (filter Q es)"
proof -
  assume ok: "list_all (date_ok P) es" and nf: "newest_first P es"
  have "list_all (date_ok P) (filter Q es)"
    using ok by (simp add: list_all_iff)
  then show ?thesis
    using ok nf sorted_wrt_filter [of "date_ge P" es Q]
    by (simp add: newest_first_sorted_wrt)
qed

text \<open>
  The three other operations do give a newest-first list: \<open>deleteEntry\<close> keeps the
  order of a list that has it, \<open>loadData\<close> always ends with it, and so does every
  \<open>importEntries\<close> that returns normally.
\<close>

theorem order_after_other_operations:
  assumes "store_ok P s"
  shows "(newest_first P (entries s) \<longrightarrow> newest_first P (entries (snd (deleteEntry wr i s)))) \<and>
         newest_first P (entries (loadData P avail s)) \<and>
         (\<forall>r. fst (importEntries P fresh wr A s) = Inr r \<longrightarrow>
            newest_first P (entries (fst (snd (importEntries P fresh wr A s)))))"
proof (intro conjI impI allI)
  assume "newest_first P (entries s)"
  then show "newest_first P (entries (snd (deleteEntry wr i s)))"
    using assms by (auto simp: deleteEntry_def Let_def saveData_def store_ok_def newest_first_filter)
next
  have "list_all (date_ok P) (entries (loadData P avail s))"
    using store_ok_loadData [OF assms] by (simp add: store_ok_def)
  moreover have "sorted_wrt (date_ge P) (entries (loadData P avail s))"
    using assms by (auto simp: loadData_def store_ok_def sort_entries_sorted split: stored.splits)
  ultimately show "newest_first P (entries (loadData P avail s))"
    by (simp add: newest_first_sorted_wrt)
next
  fix r assume ok: "fst (importEntries P fresh wr A s) = Inr r"
  obtain vs errs arr where v: "validate_all P fresh 0 A = (vs, errs, arr)"
    by (cases "validate_all P fresh 0 A") auto
  have vs: "list_all (date_ok P) vs"
    using validate_all_date_ok [of P fresh 0 A] v by simp
  from ok v obtain us where us: "unique_entries {} (vs @ entries s) = Some us"
    by (auto simp: importEntries_def removeDuplicates_def split: if_splits option.splits)
  have "list_all (date_ok P) us"
    using unique_entries_subset [OF us] vs assms by (auto simp: list_all_iff store_ok_def)
  then have "sorted_wrt (date_ge P) (sort_entries P us)" "list_all (date_ok P) (sort_entries P us)"
    by (simp_all add: sort_entries_sorted sort_entries_set list_all_iff)
  moreover have "entries (fst (snd (importEntries P fresh wr A s))) = sort_entries P us"
    using ok v us by (auto simp: importEntries_def removeDuplicates_def saveData_def split: if_splits)
  ultimately show "newest_first P (entries (fst (snd (importEntries P fresh wr A s))))"
    by (simp add: newest_first_sorted_wrt)
qed

text \<open>
  C1. Starting from the empty store, add an entry dated 2 March and then one dated
  1 March. Both calls succeed, and \<open>addEntry\<close> only prepends: the list is then the
  1 March entry followed by the 2 March entry, which is not newest first.
\<close>

theorem addEntry_breaks_order:
  "fst (addEntry (parse_local_minutes 0) 1 True entry_a empty_store) = Inr () \<and>
   newest_first (parse_local_minutes 0)
     (entries (snd (addEntry (parse_local_minutes 0) 1 True entry_a empty_store))) \<and>
   fst (addEntry (parse_local_minutes 0) 2 True entry_b
          (snd (addEntry (parse_local_minutes 0) 1 True entry_a empty_store))) = Inr () \<and>
   entries (snd (addEntry (parse_local_minutes 0) 2 True entry_b
              (snd (addEntry (parse_local_minutes 0) 1 True entry_a empty_store))))
     = [entry_b, entry_a] \<and>
   \<not> newest_first (parse_local_minutes 0)
       (entries (snd (addEntry (parse_local_minutes 0) 2 True entry_b
                  (snd (addEntry (parse_local_minutes 0) 1 True entry_a empty_store)))))"
  by code_simp

subsection \<open>Imports\<close>

lemma has_key_date: "has_key e = (date_key (e_date e) \<noteq> None)"
  by (simp add: has_key_def dedup_key_def split: option.splits)

lemma has_key_string: "has_key e = is_string (e_date e)"
  by (cases "e_date e") (simp_all add: has_key_date)

lemma unique_entries_uniq:
  "list_all has_key es \<Longrightarrow> unique_entries seen es = Some (uniq seen es)"
  by (induction es arbitrary: seen) (auto simp: has_key_def key_of_def)

lemma unique_entries_Some:
  "unique_entries seen es = Some us \<Longrightarrow> list_all has_key es \<and> us = uniq seen es"
proof (induction es arbitrary: seen us)
  case Nil
  then show ?case by simp
next
  case (Cons e es)
  then show ?case
    by (auto simp: has_key_def key_of_def split: option.splits if_splits)
qed

lemma validate_all_lengths:
  "length (fst (validate_all P fresh i A)) + length (fst (snd (validate_all P fresh i A))) = length A"
proof (induction A arbitrary: i)
  case Nil
  then show ?case by simp
next
  case (Cons c A)
  show ?case
    using Cons [of "Suc i"] by (cases c) (auto split: prod.splits)
qed

lemma validate_all_untouched:
  "fst (validate_all P fresh i A) = [] \<Longrightarrow> snd (snd (validate_all P fresh i A)) = A"
proof (induction A arbitrary: i)
  case Nil
  then show ?case by simp
next
  case (Cons c A)
  show ?case
    using Cons.prems Cons.IH [of "Suc i"] by (cases c) (auto split: prod.splits if_splits)
qed

text \<open>
  What does hold of an import. With no survivor the call fails with the error of the
  source and leaves the store and the array as they were. Every candidate is either a
  survivor or reported once. When there is a survivor and every date in the merged
  list is a string, the call returns normally, with the count of survivors and the
  per-item errors.
\<close>

theorem import_outcome:
  "(fst (validate_all P fresh 0 A) = [] \<longrightarrow>
      importEntries P fresh wr A s = (Inl (Error ''No valid entries to import''), s, A)) \<and>
   length (fst (validate_all P fresh 0 A)) + length (fst (snd (validate_all P fresh 0 A)))
     = length A \<and>
   (fst (validate_all P fresh 0 A) \<noteq> [] \<and>
    list_all (\<lambda>e. is_string (e_date e)) (fst (validate_all P fresh 0 A) @ entries s) \<longrightarrow>
      (\<exists>r. fst (importEntries P fresh wr A s) = Inr r \<and>
           imported r = length (fst (validate_all P fresh 0 A)) \<and>
           errors r = fst (snd (validate_all P fresh 0 A))))"
proof (intro conjI impI)
  assume none: "fst (validate_all P fresh 0 A) = []"
  then show "importEntries P fresh wr A s = (Inl (Error ''No valid entries to import''), s, A)"
    using validate_all_untouched [OF none]
    by (auto simp: importEntries_def split: prod.splits)
next
  show "length (fst (validate_all P fresh 0 A)) + length (fst (snd (validate_all P fresh 0 A)))
     = length A"
    by (rule validate_all_lengths)
next
  assume a: "fst (validate_all P fresh 0 A) \<noteq> [] \<and>
    list_all (\<lambda>e. is_string (e_date e)) (fst (validate_all P fresh 0 A) @ entries s)"
  obtain V errs arr where v: "validate_all P fresh 0 A = (V, errs, arr)"
    by (cases "validate_all P fresh 0 A") auto
  have "list_all has_key (V @ entries s)"
    using a v by (simp add: has_key_string list_all_iff)
  then have "unique_entries {} (V @ entries s) = Some (uniq {} (V @ entries s))"
    by (rule unique_entries_uniq)
  then show "\<exists>r. fst (importEntries P fresh wr A s) = Inr r \<and>
           imported r = length (fst (validate_all P fresh 0 A)) \<and>
           errors r = fst (snd (validate_all P fresh 0 A))"
    using a v by (simp add: importEntries_def removeDuplicates_def)
qed

text \<open>
  C6. An entry whose date is a number passes validation, so one entry survives; the
  import then throws a TypeError from \<open>removeDuplicates\<close>, after the merged list has
  been assigned: the call fails although a candidate survived, and the list in memory
  is no longer the one before the call.
\<close>

theorem import_numeric_date_throws:
  "validateEntry (parse_local_minutes 0) entry_n \<and>
   fst (validate_all (parse_local_minutes 0) (\<lambda>i. 5) 0 [Obj entry_n]) = [entry_n] \<and>
   fst (importEntries (parse_local_minutes 0) (\<lambda>i. 5) True [Obj entry_n] empty_store)
     = Inl TypeError \<and>
   fst (snd (importEntries (parse_local_minutes 0) (\<lambda>i. 5) True [Obj entry_n] empty_store))
     = \<lparr>entries = [entry_n], storage = Absent\<rparr> \<and>
   entries empty_store = []"
  by code_simp

lemma uniq_append:
  "uniq seen (xs @ ys) = uniq seen xs @ uniq (seen \<union> key_of ` set xs) ys"
proof (induction xs arbitrary: seen)
  case Nil
  then show ?case by simp
next
  case (Cons x xs)
  have "insert (key_of x) seen \<union> key_of ` set xs = seen \<union> key_of ` set (x # xs)"
    by auto
  moreover have "key_of x \<in> seen \<Longrightarrow> seen \<union> key_of ` set xs = seen \<union> key_of ` set (x # xs)"
    by auto
  ultimately show ?case
    using Cons [of seen] Cons [of "insert (key_of x) seen"] by auto
qed

lemma uniq_keys: "key_of ` set (uniq seen es) = key_of ` set es - seen"
  by (induction es arbitrary: seen) auto

lemma uniq_distinct: "distinct (map key_of (uniq seen es))"
  by (induction es arbitrary: seen) (auto simp: uniq_keys [simplified image_iff] dest: imageI [where f = key_of])

lemma uniq_filter_distinct:
  "distinct (map key_of es) \<Longrightarrow> uniq seen es = filter (\<lambda>e. key_of e \<notin> seen) es"
proof (induction es arbitrary: seen)
  case Nil
  then show ?case by simp
next
  case (Cons e es)
  have "filter (\<lambda>x. key_of x \<notin> insert (key_of e) seen) es = filter (\<lambda>x. key_of x \<notin> seen) es"
    using Cons.prems by (intro filter_cong) (auto simp: image_iff)
  then show ?case
    using Cons by auto
qed

lemma sort_key_append_sorted:
  "sort_key f (xs @ sort_key f ys) = sort_key f (xs @ ys)"
proof -
  have "sort_key f (sort_key f ys) = sort_key f ys"
    by (simp add: sort_key_id_if_sorted)
  then show ?thesis
    by (simp add: sort_key_def)
qed

lemma stamp_again: "truthy (e_id (stamp f e)) \<Longrightarrow> stamp g (stamp f e) = stamp f e"
  by (simp add: stamp_def)

lemma validateEntry_stamp: "validateEntry P (stamp f e) = validateEntry P e"
  by (simp add: validateEntry_def stamp_def)

lemma stamp_truthy: "f \<noteq> 0 \<Longrightarrow> truthy (e_id (stamp f e))"
  by (simp add: stamp_def)

lemma validate_all_again:
  assumes "\<forall>i. 0 < fresh i"
  shows "validate_all P fresh i A = (vs, errs, arr) \<Longrightarrow> validate_all P fresh' i arr = (vs, errs, arr)"
proof (induction A arbitrary: i vs errs arr)
  case Nil
  then show ?case by auto
next
  case (Cons c A)
  obtain vs0 errs0 arr0 where rest: "validate_all P fresh (Suc i) A = (vs0, errs0, arr0)"
    by (cases "validate_all P fresh (Suc i) A") auto
  have again: "validate_all P fresh' (Suc i) arr0 = (vs0, errs0, arr0)"
    using Cons.IH [OF rest] .
  have pos: "fresh i + of_nat i \<noteq> 0"
    using assms [rule_format, of i] by (smt (verit) of_nat_0_le_iff add_nonneg_eq_0_iff less_irrefl order_less_imp_le)
  show ?case
  proof (cases c)
    case (Prim v)
    then show ?thesis
      using Cons.prems rest again by auto
  next
    case (Obj e)
    then show ?thesis
      using Cons.prems rest again stamp_again [OF stamp_truthy [OF pos], of "fresh' i + of_nat i" e]
      by (auto simp: validateEntry_stamp split: if_splits)
  qed
qed

lemma distinct_map_insort_key:
  "distinct (map g (insort_key f x xs)) = (g x \<notin> g ` set xs \<and> distinct (map g xs))"
  by (induction xs) (auto simp: set_insort_key)

lemma distinct_map_sort_key: "distinct (map g (sort_key f xs)) = distinct (map g xs)"
  by (induction xs) (simp_all add: distinct_map_insort_key)

lemma saveData_twice: "saveData wr ((saveData wr x)\<lparr>entries := entries x\<rparr>) = saveData wr x"
  by (simp add: saveData_def)

text \<open>
  Re-import where the first import returned normally: on a store whose dates parse,
  with a positive clock, importing the array again (as the first import left it, ids
  filled in) returns the same result and leaves the store exactly as it was.
\<close>

theorem import_twice_same:
  assumes ok: "store_ok P s"
    and clock: "\<forall>i. 0 < fresh i"
    and first: "importEntries P fresh wr A s = (Inr r, s1, A1)"
  shows "importEntries P fresh' wr A1 s1 = (Inr r, s1, A1)"
proof -
  let ?f = "\<lambda>e. - time_of P e"
  obtain V errs arr where v: "validate_all P fresh 0 A = (V, errs, arr)"
    by (cases "validate_all P fresh 0 A") auto
  from first v obtain U where
    ne: "V \<noteq> []" and u: "unique_entries {} (V @ entries s) = Some U" and
    r: "r = \<lparr>imported = length V, errors = errs\<rparr>" and
    s1: "s1 = saveData wr (s\<lparr>entries := sort_entries P U\<rparr>)" and a1: "A1 = arr"
    by (auto simp: importEntries_def removeDuplicates_def split: if_splits option.splits)
  have v2: "validate_all P fresh' 0 A1 = (V, errs, A1)"
    using validate_all_again [OF clock v] a1 by simp
  let ?K = "key_of ` set V"
  let ?V1 = "uniq {} V"
  let ?E1 = "uniq ?K (entries s)"
  have keys: "list_all has_key (V @ entries s)" and U: "U = ?V1 @ ?E1"
    using unique_entries_Some [OF u] by (simp_all add: uniq_append)
  have okV: "list_all (date_ok P) V"
    using validate_all_date_ok [of P fresh 0 A] v by simp
  have okE: "list_all (date_ok P) (entries s)"
    using ok by (simp add: store_ok_def)
  have okU: "list_all (date_ok P) U"
    using unique_entries_subset [OF u] okV okE by (auto simp: list_all_iff)
  have S: "sort_entries P U = sort_key ?f U"
    using okU by (rule sort_entries_sort_key)
  have ent1: "entries s1 = sort_key ?f U"
    using s1 S by (simp add: saveData_def)
  have keyS: "list_all has_key (V @ sort_key ?f U)"
    using keys unique_entries_subset [OF u] by (auto simp: list_all_iff)
  have dU: "distinct (map key_of U)"
    using unique_entries_Some [OF u] by (simp add: uniq_distinct)
  have kV1: "key_of ` set ?V1 = ?K"
    by (simp add: uniq_keys)
  have kE1: "key_of ` set ?E1 \<inter> ?K = {}"
    by (auto simp: uniq_keys)
  have f1: "filter (\<lambda>e. key_of e \<notin> ?K) ?V1 = []"
    using kV1 by (auto simp: filter_empty_conv)
  have f2: "filter (\<lambda>e. key_of e \<notin> ?K) ?E1 = ?E1"
    using kE1 by (auto simp: filter_id_conv)
  have "uniq ?K (sort_key ?f U) = filter (\<lambda>e. key_of e \<notin> ?K) (sort_key ?f U)"
    using dU by (intro uniq_filter_distinct) (simp add: distinct_map_sort_key)
  also have "\<dots> = sort_key ?f (filter (\<lambda>e. key_of e \<notin> ?K) U)"
    by (rule filter_sort)
  also have "\<dots> = sort_key ?f ?E1"
    by (simp add: U f1 f2)
  finally have rest: "uniq ?K (sort_key ?f U) = sort_key ?f ?E1" .
  have u2: "unique_entries {} (V @ entries s1) = Some (?V1 @ sort_key ?f ?E1)"
    using unique_entries_uniq [OF keyS, of "{}"] rest by (simp add: ent1 uniq_append)
  have ok2: "list_all (date_ok P) (?V1 @ sort_key ?f ?E1)"
    using okU by (auto simp: U list_all_iff)
  have "sort_entries P (?V1 @ sort_key ?f ?E1) = sort_key ?f (?V1 @ sort_key ?f ?E1)"
    using ok2 by (rule sort_entries_sort_key)
  also have "\<dots> = sort_key ?f U"
    by (simp only: sort_key_append_sorted U)
  finally have S2: "sort_entries P (?V1 @ sort_key ?f ?E1) = sort_entries P U"
    by (simp add: S)
  have "saveData wr (s1\<lparr>entries := sort_entries P U\<rparr>) = s1"
    unfolding s1 using saveData_twice [of wr "s\<lparr>entries := sort_entries P U\<rparr>"] by simp
  then show ?thesis
    using v2 ne u2 S2 r by (simp add: importEntries_def removeDuplicates_def)
qed

text \<open>
  C3. Importing that same array a second time throws again and prepends the entry
  again: after one import the list has one element, after two it has two. The store
  the failed import leaves is poisoned for arrays of ordinary entries too: importing
  the 2 March entry into it throws each time and grows the list each time.
\<close>

theorem reimport_not_idempotent:
  "fst (snd (importEntries (parse_local_minutes 0) (\<lambda>i. 5) True [Obj entry_n] empty_store))
     = \<lparr>entries = [entry_n], storage = Absent\<rparr> \<and>
   snd (snd (importEntries (parse_local_minutes 0) (\<lambda>i. 5) True [Obj entry_n] empty_store))
     = [Obj entry_n] \<and>
   fst (snd (importEntries (parse_local_minutes 0) (\<lambda>i. 5) True [Obj entry_n]
      \<lparr>entries = [entry_n], storage = Absent\<rparr>))
     = \<lparr>entries = [entry_n, entry_n], storage = Absent\<rparr> \<and>
   importEntries (parse_local_minutes 0) (\<lambda>i. 5) True [Obj entry_a]
      \<lparr>entries = [entry_n], storage = Absent\<rparr>
     = (Inl TypeError, \<lparr>entries = [entry_a, entry_n], storage = Absent\<rparr>, [Obj entry_a]) \<and>
   importEntries (parse_local_minutes 0) (\<lambda>i. 5) True [Obj entry_a]
      \<lparr>entries = [entry_a, entry_n], storage = Absent\<rparr>
     = (Inl TypeError, \<lparr>entries = [entry_a, entry_a, entry_n], storage = Absent\<rparr>, [Obj entry_a])"
  by code_simp

section \<open>Properties of the trend calculator\<close>

text \<open>
  C5. For the weights 80, 79, 78 on three consecutive days (any starting instant
  \<open>t\<close>, in milliseconds), the fitted slope is -1 per day, the x-offsets are 0, 1, 2,
  the change over the window (slope times the last offset) is -2, and the legend
  classifies the trend as falling.
\<close>

theorem trend_three_days:
  "calculateTrendLine
     [\<lparr>p_date = Fin t, p_weight = Fin 80\<rparr>,
      \<lparr>p_date = Fin (t + 86400000), p_weight = Fin 79\<rparr>,
      \<lparr>p_date = Fin (t + 2 * 86400000), p_weight = Fin 78\<rparr>]
     = Some \<lparr>slope = Fin (- 1), intercept = Fin 80, xValues = [Fin 0, Fin 1, Fin 2], firstDate = Fin t\<rparr>
   \<and> legend_trend
     [\<lparr>p_date = Fin t, p_weight = Fin 80\<rparr>,
      \<lparr>p_date = Fin (t + 86400000), p_weight = Fin 79\<rparr>,
      \<lparr>p_date = Fin (t + 2 * 86400000), p_weight = Fin 78\<rparr>]
     = Some (Falling, Fin (- 2))"
proof -
  have c: "calculateTrendLine
     [\<lparr>p_date = Fin t, p_weight = Fin 80\<rparr>,
      \<lparr>p_date = Fin (t + 86400000), p_weight = Fin 79\<rparr>,
      \<lparr>p_date = Fin (t + 2 * 86400000), p_weight = Fin 78\<rparr>]
     = Some \<lparr>slope = Fin (- 1), intercept = Fin 80, xValues = [Fin 0, Fin 1, Fin 2], firstDate = Fin t\<rparr>"
    by (simp add: calculateTrendLine_def num_sub_def slope_numerator_def slope_denominator_def
        sum_nums_def sum_products_def)
  show ?thesis
    unfolding legend_trend_def c by simp
qed

lemma zn_add: "zero_or_nan a \<Longrightarrow> zero_or_nan b \<Longrightarrow> zero_or_nan (num_add a b)"
  by (auto simp: zero_or_nan_def)

lemma zn_mul_left: "zero_or_nan a \<Longrightarrow> zero_or_nan (num_mul a b)"
  by (cases b) (auto simp: zero_or_nan_def signed_inf_def)

lemma zn_mul_right: "zero_or_nan b \<Longrightarrow> zero_or_nan (num_mul a b)"
  by (cases a) (auto simp: zero_or_nan_def signed_inf_def)

lemma zn_sub: "zero_or_nan a \<Longrightarrow> zero_or_nan b \<Longrightarrow> zero_or_nan (num_sub a b)"
  by (auto simp: zero_or_nan_def num_sub_def)

lemma zn_div_zero: "zero_or_nan a \<Longrightarrow> b = Fin 0 \<or> b = NaN \<Longrightarrow> num_div a b = NaN"
  by (auto simp: zero_or_nan_def signed_inf_def)

lemma zn_foldl_add:
  "zero_or_nan acc \<Longrightarrow> list_all zero_or_nan vs \<Longrightarrow> zero_or_nan (foldl num_add acc vs)"
  by (induction vs arbitrary: acc) (auto simp: zn_add)

lemma zn_foldl_products:
  "zero_or_nan acc \<Longrightarrow> list_all zero_or_nan xs \<Longrightarrow>
   zero_or_nan (foldl (\<lambda>sum (x, y). num_add sum (num_mul x y)) acc (zip xs ys))"
proof (induction xs arbitrary: acc ys)
  case Nil
  then show ?case by simp
next
  case (Cons x xs)
  show ?case
  proof (cases ys)
    case Nil
    then show ?thesis using Cons.prems by simp
  next
    case (Cons y ys')
    then show ?thesis
      using Cons.prems Cons.IH [of "num_add acc (num_mul x y)" ys']
      by (simp add: zn_add zn_mul_left)
  qed
qed

lemma zn_slope_numerator: "list_all zero_or_nan xs \<Longrightarrow> zero_or_nan (slope_numerator xs ys)"
  unfolding slope_numerator_def sum_products_def sum_nums_def
  by (intro zn_sub zn_mul_right zn_mul_left zn_foldl_products zn_foldl_add)
     (simp_all add: zero_or_nan_def)

lemma zn_slope_denominator: "list_all zero_or_nan xs \<Longrightarrow> zero_or_nan (slope_denominator xs)"
  unfolding slope_denominator_def sum_products_def sum_nums_def
  by (intro zn_sub zn_mul_right zn_foldl_products zn_foldl_add)
     (simp_all add: zero_or_nan_def)

lemma zn_offset: "zero_or_nan (num_div (num_sub c c) (Fin 86400000))"
  by (cases c) (auto simp: zero_or_nan_def num_sub_def)

lemma offset_finite: "num_div (num_sub (Fin q) (Fin q)) (Fin 86400000) = Fin 0"
  by (simp add: num_sub_def)

lemma sum_nums_zeros: "list_all (\<lambda>v. v = Fin 0) vs \<Longrightarrow> foldl num_add (Fin 0) vs = Fin 0"
  by (induction vs) auto

lemma sum_products_zeros:
  "list_all (\<lambda>v. v = Fin 0) vs \<Longrightarrow>
   foldl (\<lambda>sum (x, y). num_add sum (num_mul x y)) (Fin 0) (zip vs vs) = Fin 0"
  by (induction vs) auto

lemma slope_denominator_zeros: "list_all (\<lambda>v. v = Fin 0) vs \<Longrightarrow> slope_denominator vs = Fin 0"
  by (simp add: slope_denominator_def sum_nums_def sum_products_def sum_nums_zeros
      sum_products_zeros num_sub_def)

text \<open>
  C10. Below two points \<open>calculateTrendLine\<close> returns null. With two or more points
  that all carry the same date it returns a trend whose slope is NaN; when that date
  is a finite instant every x-offset is zero and the denominator of the slope is zero,
  so the quotient is 0/0 (or NaN/0 when a weight is not finite).
\<close>

theorem trend_equal_dates:
  "(length data < 2 \<longrightarrow> calculateTrendLine data = None) \<and>
   (2 \<le> length data \<and> (\<forall>d \<in> set data. p_date d = p_date (hd data)) \<longrightarrow>
      (\<exists>tr. calculateTrendLine data = Some tr \<and> slope tr = NaN \<and>
            (\<forall>q. p_date (hd data) = Fin q \<longrightarrow>
               list_all (\<lambda>x. x = Fin 0) (xValues tr) \<and> slope_denominator (xValues tr) = Fin 0)))"
proof (intro conjI impI)
  assume "length data < 2"
  then have "data = [] \<or> (\<exists>d. data = [d])"
    by (cases data) auto
  then show "calculateTrendLine data = None"
    by (auto simp: calculateTrendLine_def)
next
  assume a: "2 \<le> length data \<and> (\<forall>d \<in> set data. p_date d = p_date (hd data))"
  then obtain d0 d1 rest where data: "data = d0 # d1 # rest"
    by (metis One_nat_def Suc_1 Suc_le_length_iff)
  define c where "c = p_date d0"
  define xs where "xs = map (\<lambda>d. num_div (num_sub (p_date d) c) (Fin (1000 * 60 * 60 * 24))) data"
  define ys where "ys = map p_weight data"
  have same: "\<forall>d \<in> set data. p_date d = c"
    using a data c_def by simp
  have xs_eq: "xs = map (\<lambda>d. num_div (num_sub c c) (Fin (1000 * 60 * 60 * 24))) data"
    unfolding xs_def using same by simp
  have zn: "list_all zero_or_nan xs"
    unfolding xs_eq by (simp add: list_all_iff zn_offset)
  have sl: "num_div (slope_numerator xs ys) (slope_denominator xs) = NaN"
    using zn_div_zero [OF zn_slope_numerator [OF zn]] zn_slope_denominator [OF zn]
    by (simp add: zero_or_nan_def)
  have fin: "\<forall>q. c = Fin q \<longrightarrow> list_all (\<lambda>x. x = Fin 0) xs \<and> slope_denominator xs = Fin 0"
  proof (intro allI impI)
    fix q assume "c = Fin q"
    then have z: "list_all (\<lambda>x. x = Fin 0) xs"
      unfolding xs_eq by (simp add: list_all_iff offset_finite)
    then show "list_all (\<lambda>x. x = Fin 0) xs \<and> slope_denominator xs = Fin 0"
      by (simp add: slope_denominator_zeros)
  qed
  have "calculateTrendLine data =
      Some \<lparr>slope = num_div (slope_numerator xs ys) (slope_denominator xs),
            intercept = num_div (num_sub (sum_nums ys)
               (num_mul (num_div (slope_numerator xs ys) (slope_denominator xs)) (sum_nums xs)))
               (Fin (of_nat (length data))),
            xValues = xs, firstDate = c\<rparr>"
    unfolding calculateTrendLine_def xs_def ys_def c_def data by (simp add: Let_def)
  then show "\<exists>tr. calculateTrendLine data = Some tr \<and> slope tr = NaN \<and>
            (\<forall>q. p_date (hd data) = Fin q \<longrightarrow>
               list_all (\<lambda>x. x = Fin 0) (xValues tr) \<and> slope_denominator (xValues tr) = Fin 0)"
    using sl fin data c_def by simp
qed

theorem trend_equal_dates_witness:
  "calculateTrendLine [\<lparr>p_date = Fin 1740830400000, p_weight = Fin 80\<rparr>] = None \<and>
   (\<exists>tr. calculateTrendLine
            [\<lparr>p_date = Fin 1740830400000, p_weight = Fin 80\<rparr>,
             \<lparr>p_date = Fin 1740830400000, p_weight = Fin 79\<rparr>] = Some tr \<and> slope tr = NaN
          \<and> xValues tr = [Fin 0, Fin 0] \<and> slope_denominator (xValues tr) = Fin 0)"
  using trend_equal_dates [of "[\<lparr>p_date = Fin 1740830400000, p_weight = Fin 80\<rparr>]"]
        trend_equal_dates [of "[\<lparr>p_date = Fin 1740830400000, p_weight = Fin 80\<rparr>,
             \<lparr>p_date = Fin 1740830400000, p_weight = Fin 79\<rparr>]"]
  by (auto simp: calculateTrendLine_def num_sub_def Let_def)

section \<open>Properties of the free-text importer\<close>

subsection \<open>The loop body, case by case\<close>

lemma header_step:
  assumes "match_date_line (trim raw) = Some (dd, mm, w)"
    and "parseInt dd = Some day" and "parseInt mm = Some month"
    and "1 \<le> day" and "day \<le> 31" and "1 \<le> month" and "month \<le> 12"
    and "make_date tz (parseInt year) (month - 1) day 12 0 = Some t"
  shows "parse_line tz year f st raw =
           Inr ((case currentEntry st of
                   Some a \<Rightarrow> st\<lparr>parsedEntries := parsedEntries st @ [a]\<rparr>
                 | None \<Rightarrow> st)
                \<lparr>heap := heap st @
                   [\<lparr>d_id = Fin f, d_date = take 16 (toISOString t),
                     d_weight = parseFloat (replace_comma w), d_notes = NArr [],
                     d_type = ''daily'', d_dose = JNull\<rparr>],
                 currentEntry := Some (length (heap st))\<rparr>)"
proof -
  have "trim raw \<noteq> []"
    using assms(1) by (auto simp: match_date_line_def)
  then show ?thesis
    using assms by (cases "currentEntry st") (simp_all add: parse_line_def Let_def)
qed

lemma dose_note_step:
  assumes "trim raw = CHR ''-'' # rest" and "match_date_line (trim raw) = None"
    and "currentEntry st = Some a" and "obj (heap st) a = Some d"
    and "med_match (trim rest) = Some g"
  shows "parse_line tz year f st raw =
           Inr (st\<lparr>heap := (heap st)[a := d\<lparr>d_type := ''medication'',
                  d_dose := JStr (num_to_string (parseFloat (replace_comma g)) @ ''mg'')\<rparr>]\<rparr>)"
  using assms by (simp add: parse_line_def Let_def)

lemma text_note_step:
  assumes "trim raw = CHR ''-'' # rest" and "match_date_line (trim raw) = None"
    and "currentEntry st = Some a" and "obj (heap st) a = Some d"
    and "med_match (trim rest) = None" and "trim rest \<noteq> []" and "d_notes d = NArr ns"
  shows "parse_line tz year f st raw =
           Inr (st\<lparr>heap := (heap st)[a := d\<lparr>d_notes := NArr (ns @ [trim rest])\<rparr>]\<rparr>)"
  using assms by (simp add: parse_line_def Let_def)

text \<open>
  A header whose day or month is out of range creates no entry and does not throw,
  but it pushes the open entry and leaves it open.
\<close>

lemma rejected_header_step:
  assumes "match_date_line (trim raw) = Some (dd, mm, w)"
    and "parseInt dd = Some day" and "parseInt mm = Some month"
    and "day < 1 \<or> 31 < day \<or> month < 1 \<or> 12 < month"
  shows "parse_line tz year f st raw =
           Inr (case currentEntry st of
                  Some a \<Rightarrow> st\<lparr>parsedEntries := parsedEntries st @ [a]\<rparr>
                | None \<Rightarrow> st)"
proof -
  have "trim raw \<noteq> []"
    using assms(1) by (auto simp: match_date_line_def)
  then show ?thesis
    using assms by (simp add: parse_line_def Let_def)
qed

subsection \<open>The log of the specification\<close>

lemma noon_2025:
  assumes "- 720 < tz" and "tz \<le> 720" and "1 \<le> day" and "day \<le> 31"
  shows "make_date tz (Some 2025) 2 day 12 0 = Some ((20147 + day) * 86400000 + (720 - tz) * 60000)"
proof -
  have d: "days_from_civil 2025 3 1 = 20148" by code_simp
  show ?thesis
    using assms by (simp add: make_date_def Let_def d)
qed

lemma iso_day_prefix:
  assumes "0 \<le> r" and "r < 86400000" and "civil_from_days d = (2025, 3, k)" and "1 \<le> k" and "k < 10"
  shows "take 11 (take 16 (toISOString (d * 86400000 + r))) = ''2025-03-0'' @ [digit_char (nat k), CHR ''T'']"
proof -
  have dv: "(d * 86400000 + r) div 86400000 = d"
    using assms(1,2) by (simp add: div_pos_pos_trivial)
  have y: "pad 4 (nat_digits 2025) = ''2025''" by code_simp
  have m: "pad 2 (nat_digits 3) = ''03''" by code_simp
  have "nat k < 10"
    using assms(4,5) by linarith
  then have k: "pad 2 (nat_digits (nat k)) = [CHR ''0'', digit_char (nat k)]"
    by (simp add: pad_def nat_digits.simps)
  show ?thesis
    by (simp add: toISOString_def Let_def dv assms(3) y m k)
qed

lemma sample_lines:
  "split_lines (trim sample_text)
     = [''01/03 - 82,5 kg'', ''- mounjaro 5 mg'', ''- felt fine'', ''02/03 - 82,1 kg'']"
  by code_simp

text \<open>
  Where local time is at most twelve hours ahead of UTC and less than twelve hours
  behind it, the four-line log with year 2025 gives the two entries of the
  specification, dated on 1 March and 2 March.
\<close>

theorem sample_text_any_zone:
  assumes "- 720 < tz" and "tz \<le> 720"
  shows "parseTextData tz fresh sample_text ''2025'' =
     Preview
       [\<lparr>d_id = Fin (fresh 0),
         d_date = take 16 (toISOString (20148 * 86400000 + (720 - tz) * 60000)),
         d_weight = Fin (165 / 2), d_notes = NStr ''felt fine'', d_type = ''medication'',
         d_dose = JStr ''5mg''\<rparr>,
        \<lparr>d_id = Fin (fresh 3),
         d_date = take 16 (toISOString (20149 * 86400000 + (720 - tz) * 60000)),
         d_weight = Fin (821 / 10), d_notes = NNull, d_type = ''daily'', d_dose = JNull\<rparr>] \<and>
     take 11 (take 16 (toISOString (20148 * 86400000 + (720 - tz) * 60000))) = ''2025-03-01T'' \<and>
     take 11 (take 16 (toISOString (20149 * 86400000 + (720 - tz) * 60000))) = ''2025-03-02T''"
proof -
  let ?D1 = "take 16 (toISOString (20148 * 86400000 + (720 - tz) * 60000))"
  let ?D2 = "take 16 (toISOString (20149 * 86400000 + (720 - tz) * 60000))"
  let ?st0 = "\<lparr>heap = [], parsedEntries = [], currentEntry = None\<rparr>"
  let ?e0 = "\<lparr>d_id = Fin (fresh 0), d_date = ?D1, d_weight = Fin (165 / 2), d_notes = NArr [],
              d_type = ''daily'', d_dose = JNull\<rparr>"
  let ?e1 = "?e0\<lparr>d_type := ''medication'', d_dose := JStr ''5mg''\<rparr>"
  let ?e2 = "?e1\<lparr>d_notes := NArr [''felt fine'']\<rparr>"
  let ?e3 = "\<lparr>d_id = Fin (fresh (Suc (Suc (Suc 0)))), d_date = ?D2, d_weight = Fin (821 / 10), d_notes = NArr [],
              d_type = ''daily'', d_dose = JNull\<rparr>"
  have year: "parseInt ''2025'' = Some 2025" by code_simp
  have m1: "match_date_line (trim ''01/03 - 82,5 kg'') = Some (''01'', ''03'', ''82,5'')" by code_simp
  have m4: "match_date_line (trim ''02/03 - 82,1 kg'') = Some (''02'', ''03'', ''82,1'')" by code_simp
  have p01: "parseInt ''01'' = Some 1" by code_simp
  have p02: "parseInt ''02'' = Some 2" by code_simp
  have p03: "parseInt ''03'' = Some 3" by code_simp
  have w1: "parseFloat ''82.5'' = Fin (165 / 2)" by code_simp
  have w4: "parseFloat ''82.1'' = Fin (821 / 10)" by code_simp
  have t2: "trim ''- mounjaro 5 mg'' = CHR ''-'' # '' mounjaro 5 mg''" by code_simp
  have n2: "match_date_line (trim ''- mounjaro 5 mg'') = None" by code_simp
  have g2: "med_match (trim '' mounjaro 5 mg'') = Some ''5''" by code_simp
  have d2: "num_to_string (parseFloat ''5'') = ''5''" by code_simp
  have t3: "trim ''- felt fine'' = CHR ''-'' # '' felt fine''" by code_simp
  have n3: "match_date_line (trim ''- felt fine'') = None" by code_simp
  have g3: "med_match (trim '' felt fine'') = None" by code_simp
  have r3: "trim '' felt fine'' = ''felt fine''" by code_simp
  have date1: "make_date tz (parseInt ''2025'') (3 - 1) 1 12 0
                 = Some (20148 * 86400000 + (720 - tz) * 60000)"
    using noon_2025 [OF assms, of 1] by (simp add: year)
  have date2: "make_date tz (parseInt ''2025'') (3 - 1) 2 12 0
                 = Some (20149 * 86400000 + (720 - tz) * 60000)"
    using noon_2025 [OF assms, of 2] by (simp add: year)
  have s1: "parse_line tz ''2025'' (fresh 0) ?st0 ''01/03 - 82,5 kg''
              = Inr \<lparr>heap = [?e0], parsedEntries = [], currentEntry = Some 0\<rparr>"
    using header_step [OF m1 p01 p03 _ _ _ _ date1, of "fresh 0" ?st0] by (simp add: w1)
  have s2: "parse_line tz ''2025'' (fresh (Suc 0)) \<lparr>heap = [?e0], parsedEntries = [], currentEntry = Some 0\<rparr>
              ''- mounjaro 5 mg''
              = Inr \<lparr>heap = [?e1], parsedEntries = [], currentEntry = Some 0\<rparr>"
    using dose_note_step [OF t2 n2 _ _ g2,
        of "\<lparr>heap = [?e0], parsedEntries = [], currentEntry = Some 0\<rparr>" 0 ?e0 tz "''2025''" "fresh (Suc 0)"]
    by (simp add: obj_def d2)
  have s3: "parse_line tz ''2025'' (fresh (Suc (Suc 0))) \<lparr>heap = [?e1], parsedEntries = [], currentEntry = Some 0\<rparr>
              ''- felt fine''
              = Inr \<lparr>heap = [?e2], parsedEntries = [], currentEntry = Some 0\<rparr>"
    using text_note_step [OF t3 n3 _ _ g3,
        of "\<lparr>heap = [?e1], parsedEntries = [], currentEntry = Some 0\<rparr>" 0 ?e1 "[]" tz "''2025''" "fresh (Suc (Suc 0))"]
    by (simp add: obj_def r3)
  have s4: "parse_line tz ''2025'' (fresh (Suc (Suc (Suc 0)))) \<lparr>heap = [?e2], parsedEntries = [], currentEntry = Some 0\<rparr>
              ''02/03 - 82,1 kg''
              = Inr \<lparr>heap = [?e2, ?e3], parsedEntries = [0], currentEntry = Some (Suc 0)\<rparr>"
    using header_step [OF m4 p02 p03 _ _ _ _ date2, of "fresh (Suc (Suc (Suc 0)))"
        "\<lparr>heap = [?e2], parsedEntries = [], currentEntry = Some 0\<rparr>"] by (simp add: w4)
  have loop: "parse_lines tz ''2025'' fresh 0 ?st0 (split_lines (trim sample_text))
                = Inr \<lparr>heap = [?e2, ?e3], parsedEntries = [0], currentEntry = Some (Suc 0)\<rparr>"
    unfolding sample_lines by (simp only: parse_lines.simps s1 s2 s3 s4 sum.case)
  have fin: "finish_notes [?e2, ?e3] [0, Suc 0]
               = Inr [?e2\<lparr>d_notes := NStr ''felt fine''\<rparr>, ?e3\<lparr>d_notes := NNull\<rparr>]"
    by (simp add: obj_def)
  have ne: "trim sample_text \<noteq> []"
    using sample_lines by auto
  have out: "parseTextData tz fresh sample_text ''2025'' =
     Preview [?e2\<lparr>d_notes := NStr ''felt fine''\<rparr>, ?e3\<lparr>d_notes := NNull\<rparr>]"
    by (simp add: parseTextData_def Let_def ne loop fin List.map_filter_def obj_def)
  have r: "0 \<le> (720 - tz) * 60000" "(720 - tz) * 60000 < 86400000"
    using assms by simp_all
  have c1: "civil_from_days 20148 = (2025, 3, 1)" by code_simp
  have c2: "civil_from_days 20149 = (2025, 3, 2)" by code_simp
  have k1: "digit_char (Suc 0) = CHR ''1''" by code_simp
  have k2: "digit_char 2 = CHR ''2''" by code_simp
  show ?thesis
    using out iso_day_prefix [OF r c1] iso_day_prefix [OF r c2]
    by (simp add: k1 k2 numeral_3_eq_3)
qed

text \<open>
  C4. The four-line log with year 2025, parsed where local time is thirteen hours
  ahead of UTC: two entries with the types, dose, weights and notes expected, but the
  date strings, cut from the UTC form of local noon, fall on 28 February and 1 March.
\<close>

theorem sample_text_utc13:
  "parseTextData 780 (\<lambda>i. 1000 + of_nat i) sample_text ''2025'' =
     Preview
       [\<lparr>d_id = Fin 1000, d_date = ''2025-02-28T23:00'', d_weight = Fin (165 / 2),
         d_notes = NStr ''felt fine'', d_type = ''medication'', d_dose = JStr ''5mg''\<rparr>,
        \<lparr>d_id = Fin 1003, d_date = ''2025-03-01T23:00'', d_weight = Fin (821 / 10),
         d_notes = NNull, d_type = ''daily'', d_dose = JNull\<rparr>]"
  by code_simp

subsection \<open>An object pushed twice\<close>

lemma join_notes_nonempty: "ns \<noteq> [] \<Longrightarrow> [] \<notin> set ns \<Longrightarrow> join_notes ns \<noteq> []"
  by (induction ns rule: join_notes.induct) auto

lemma heap_known_update:
  "heap_known h \<Longrightarrow> open_notes d \<or> settled d \<Longrightarrow> heap_known (h[a := d])"
  unfolding heap_known_def list_all_iff by (auto dest: set_update_subset_insert [THEN subsetD])

lemma heap_known_obj: "heap_known h \<Longrightarrow> obj h a = Some d \<Longrightarrow> open_notes d \<or> settled d"
  by (auto simp: heap_known_def obj_def list_all_iff split: if_splits)

lemma closed_note:
  "open_notes d \<Longrightarrow> d_notes d = NArr ns \<Longrightarrow>
   settled (d\<lparr>d_notes := (if 0 < length ns then NStr (join_notes ns) else NNull)\<rparr>)"
  by (auto simp: open_notes_def settled_def join_notes_nonempty)

lemma finish_notes_settled:
  "a \<in> set as \<Longrightarrow> obj h a = Some d \<Longrightarrow> settled d \<Longrightarrow> heap_known h \<Longrightarrow>
   \<exists>err. finish_notes h as = Inl err"
proof (induction as arbitrary: h)
  case Nil
  then show ?case by simp
next
  case (Cons b as)
  show ?case
  proof (cases "obj h b")
    case None
    then show ?thesis by simp
  next
    case (Some db)
    show ?thesis
    proof (cases "d_notes db")
      case (NArr ns)
      then have ab: "a \<noteq> b"
        using Cons.prems(2,3) Some by (auto simp: settled_def)
      let ?h = "h[b := db\<lparr>d_notes := (if 0 < length ns then NStr (join_notes ns) else NNull)\<rparr>]"
      have op: "open_notes db"
        using heap_known_obj [OF Cons.prems(4) Some] NArr by (auto simp: settled_def)
      have "a \<in> set as" using Cons.prems(1) ab by simp
      moreover have "obj ?h a = Some d"
        using Cons.prems(2) ab by (auto simp: obj_def split: if_splits)
      moreover have "heap_known ?h"
        using Cons.prems(4) closed_note [OF op NArr] by (intro heap_known_update) auto
      ultimately have "\<exists>err. finish_notes ?h as = Inl err"
        using Cons.IH Cons.prems(3) by blast
      then show ?thesis
        using Some NArr by simp
    next
      case (NStr t)
      then have "t \<noteq> []"
        using heap_known_obj [OF Cons.prems(4) Some] by (auto simp: settled_def open_notes_def)
      then show ?thesis using Some NStr by simp
    next
      case NNull
      then show ?thesis using Some by simp
    qed
  qed
qed

lemma finish_notes_repeated:
  "\<not> distinct as \<Longrightarrow> heap_known h \<Longrightarrow> \<exists>err. finish_notes h as = Inl err"
proof (induction as arbitrary: h)
  case Nil
  then show ?case by simp
next
  case (Cons b as)
  show ?case
  proof (cases "obj h b")
    case None
    then show ?thesis by simp
  next
    case (Some db)
    show ?thesis
    proof (cases "d_notes db")
      case (NArr ns)
      let ?d = "db\<lparr>d_notes := (if 0 < length ns then NStr (join_notes ns) else NNull)\<rparr>"
      let ?h = "h[b := ?d]"
      have op: "open_notes db"
        using heap_known_obj [OF Cons.prems(2) Some] NArr by (auto simp: settled_def)
      have st: "settled ?d" using closed_note [OF op NArr] .
      have hk: "heap_known ?h"
        using Cons.prems(2) st by (intro heap_known_update) auto
      have ob: "obj ?h b = Some ?d"
        using Some by (auto simp: obj_def split: if_splits)
      have "\<exists>err. finish_notes ?h as = Inl err"
      proof (cases "b \<in> set as")
        case True
        then show ?thesis using finish_notes_settled [OF True ob st hk] by simp
      next
        case False
        then have "\<not> distinct as" using Cons.prems(1) by simp
        then show ?thesis using Cons.IH hk by blast
      qed
      then show ?thesis using Some NArr by simp
    next
      case (NStr t)
      then have "t \<noteq> []"
        using heap_known_obj [OF Cons.prems(2) Some] by (auto simp: settled_def open_notes_def)
      then show ?thesis using Some NStr by simp
    next
      case NNull
      then show ?thesis using Some by simp
    qed
  qed
qed

lemma parse_line_heap_known:
  assumes "parse_line tz year f st raw = Inr st'" and "heap_known (heap st)"
  shows "heap_known (heap st')"
proof (cases "trim raw = []")
  case True
  then show ?thesis using assms by (simp add: parse_line_def)
next
  case False
  show ?thesis
  proof (cases "match_date_line (trim raw)")
    case (Some m)
    obtain dd mm w where m: "m = (dd, mm, w)" by (cases m) auto
    have new: "\<And>i t. heap_known (heap st @
        [\<lparr>d_id = Fin f, d_date = t, d_weight = i, d_notes = NArr [],
          d_type = ''daily'', d_dose = JNull\<rparr>])"
      using assms(2) by (simp add: heap_known_def open_notes_def)
    show ?thesis
      using assms False Some m new
      by (auto simp: parse_line_def Let_def split: option.splits if_splits)
  next
    case None
    then have nm: "match_date_line (trim raw) = None" .
    show ?thesis
    proof (cases "currentEntry st")
      case None
      then show ?thesis
        using assms False nm
        by (auto simp: parse_line_def Let_def split: list.splits)
    next
      case (Some a)
      then have cur: "currentEntry st = Some a" .
      obtain c rest where l: "trim raw = c # rest"
        using False by (cases "trim raw") auto
      show ?thesis
      proof (cases "obj (heap st) a")
        case None
        then show ?thesis
          using assms l cur nm
          by (auto simp: parse_line_def Let_def split: if_splits)
      next
        case (Some d)
        have k: "open_notes d \<or> settled d"
          using heap_known_obj [OF assms(2) Some] .
        have dose: "\<And>t v. heap_known ((heap st)[a := d\<lparr>d_type := t, d_dose := v\<rparr>])"
          using k by (intro heap_known_update [OF assms(2)]) (simp add: open_notes_def settled_def)
        have more: "\<And>ns n. d_notes d = NArr ns \<Longrightarrow> n \<noteq> [] \<Longrightarrow>
            heap_known ((heap st)[a := d\<lparr>d_notes := NArr (ns @ [n])\<rparr>])"
          using k by (intro heap_known_update [OF assms(2)]) (auto simp: open_notes_def settled_def)
        show ?thesis
          using assms l Some cur nm dose more
          by (auto simp: parse_line_def Let_def split: if_splits option.splits notes_val.splits)
      qed
    qed
  qed
qed

lemma parse_line_pushed_twice:
  assumes "parse_line tz year f st raw = Inr st'" and "pushed_twice st"
  shows "pushed_twice st'"
proof (cases "trim raw = []")
  case True
  then show ?thesis using assms by (simp add: parse_line_def)
next
  case False
  show ?thesis
  proof (cases "match_date_line (trim raw)")
    case (Some m)
    obtain dd mm w where m: "m = (dd, mm, w)" by (cases m) auto
    have push: "\<not> distinct (parsedEntries
        (case currentEntry st of Some a \<Rightarrow> st\<lparr>parsedEntries := parsedEntries st @ [a]\<rparr>
         | None \<Rightarrow> st))"
      using assms(2) by (auto simp: pushed_twice_def split: option.splits)
    show ?thesis
      using assms(1) False Some m push
      by (auto simp: parse_line_def Let_def pushed_twice_def split: option.splits if_splits)
  next
    case None
    have "parsedEntries st' = parsedEntries st \<and> currentEntry st' = currentEntry st"
      using assms(1) False None
      by (auto simp: parse_line_def Let_def
          split: list.splits option.splits if_splits notes_val.splits)
    then show ?thesis
      using assms(2) by (auto simp: pushed_twice_def split: option.splits)
  qed
qed

lemma parse_lines_keep:
  "parse_lines tz year fresh i st ls = Inr st' \<Longrightarrow> heap_known (heap st) \<Longrightarrow>
   heap_known (heap st') \<and> (pushed_twice st \<longrightarrow> pushed_twice st')"
proof (induction ls arbitrary: i st)
  case Nil
  then show ?case by simp
next
  case (Cons l ls)
  then obtain st1 where 1: "parse_line tz year (fresh i) st l = Inr st1"
    and 2: "parse_lines tz year fresh (Suc i) st1 ls = Inr st'"
    by (auto split: sum.splits)
  show ?case
    using Cons.IH [OF 2 parse_line_heap_known [OF 1 Cons.prems(2)]]
      parse_line_pushed_twice [OF 1] by blast
qed

lemma parse_lines_append:
  "parse_lines tz year fresh i st (xs @ ys) =
     (case parse_lines tz year fresh i st xs of
        Inl err \<Rightarrow> Inl err
      | Inr st1 \<Rightarrow> parse_lines tz year fresh (i + length xs) st1 ys)"
  by (induction xs arbitrary: i st) (auto split: sum.splits)

text \<open>
  Whenever a header with a day or month out of range is read while an entry is open
  (the lines before it were parsed without an exception and left an entry open), the
  whole parse ends in the error branch, whatever lines follow.
\<close>

theorem rejected_header_breaks_parse:
  assumes lines: "split_lines (trim text) = before @ bad # after"
    and prefix: "parse_lines tz year fresh 0 \<lparr>heap = [], parsedEntries = [], currentEntry = None\<rparr> before
                   = Inr st"
    and opened: "currentEntry st = Some a"
    and header: "match_date_line (trim bad) = Some (dd, mm, w)"
    and day: "parseInt dd = Some day" and month: "parseInt mm = Some month"
    and range: "day < 1 \<or> 31 < day \<or> month < 1 \<or> 12 < month"
  shows "\<exists>err. parseTextData tz fresh text year = Parse_error err"
proof -
  let ?init = "\<lparr>heap = [], parsedEntries = [], currentEntry = None\<rparr>"
  let ?st1 = "st\<lparr>parsedEntries := parsedEntries st @ [a]\<rparr>"
  have ne: "trim text \<noteq> []"
  proof
    assume "trim text = []"
    then have "before @ bad # after = [[]]" using lines by simp
    then have "bad = []" by (cases before) auto
    then show False using header by (simp add: match_date_line_def trim_def)
  qed
  have hk: "heap_known (heap st)"
    using parse_lines_keep [OF prefix] by (simp add: heap_known_def)
  have step: "parse_line tz year (fresh (length before)) st bad = Inr ?st1"
    using rejected_header_step [OF header day month range, of tz year "fresh (length before)" st]
      opened by simp
  have tw: "pushed_twice ?st1"
    using opened by (simp add: pushed_twice_def)
  have loop: "parse_lines tz year fresh 0 ?init (split_lines (trim text))
                = parse_lines tz year fresh (Suc (length before)) ?st1 after"
    unfolding lines by (simp add: parse_lines_append prefix step)
  show ?thesis
  proof (cases "parse_lines tz year fresh (Suc (length before)) ?st1 after")
    case (Inl err)
    then show ?thesis
      using ne loop by (simp add: parseTextData_def Let_def)
  next
    case (Inr st2)
    have k2: "heap_known (heap st2)" and t2: "pushed_twice st2"
      using parse_lines_keep [OF Inr] hk tw by simp_all
    let ?parsed = "case currentEntry st2 of Some a \<Rightarrow> parsedEntries st2 @ [a]
                   | None \<Rightarrow> parsedEntries st2"
    have "\<not> distinct ?parsed"
      using t2 by (auto simp: pushed_twice_def split: option.splits)
    then obtain err where "finish_notes (heap st2) ?parsed = Inl err"
      using finish_notes_repeated [OF _ k2] by blast
    then show ?thesis
      using ne loop Inr by (simp add: parseTextData_def Let_def)
  qed
qed

text \<open>
  C8. A header with day 32 that follows an entry: the entry is pushed, the header is
  rejected, and the entry is pushed a second time at the next header or at the end of
  the input. The closing loop meets the same object twice and throws a TypeError, so
  the parse ends with an error and no entries, whether or not lines follow the bad
  header. Alone in the input, the bad header gives an empty preview.
\<close>

theorem bad_header_after_entry_fails:
  "parseTextData 0 (\<lambda>i. 1000 + of_nat i) bad_header_text ''2025'' = Parse_error TypeError \<and>
   parseTextData 0 (\<lambda>i. 1000 + of_nat i) bad_header_between ''2025'' = Parse_error TypeError \<and>
   parseTextData 0 (\<lambda>i. 1000 + of_nat i) ''32/01 - 70 kg'' ''2025'' = Preview []"
  by code_simp

end
